theory Spec2Isabelle
  imports Complex_Main
begin

section \<open>BiRealEST: data model\<close>

text \<open>
  The planner of \<^verbatim>\<open>src/ompl/geometric/planners/est/src/BiRealEST.cpp\<close>. Pointers are
  addresses: a \<^verbatim>\<open>base::State*\<close>, a \<^verbatim>\<open>Motion*\<close> and a
  \<^verbatim>\<open>PDF<Motion*>::Element*\<close> are natural numbers, a null pointer is \<open>None\<close>. The two
  heaps are total functions from addresses with an allocation counter, so that \<^verbatim>\<open>new\<close>
  returns the counter and advances it. C++ \<^verbatim>\<open>double\<close> values are modelled as reals
  (rounding is not modelled). The member names lose their trailing underscore.
\<close>

type_synonym sptr = nat
type_synonym mptr = nat
type_synonym elem = nat

text \<open>
  Modelled from the spec: the \<^verbatim>\<open>Motion\<close> struct is declared in BiRealEST.h, which is missing;
  section 3 of the spec gives its fields: state, parent (null for roots), root (the state
  of the root ancestor) and the weight handle (null until inserted). The field
  \<^verbatim>\<open>root\<close> is named \<open>root_state\<close> here.
\<close>

record Motion =
  state :: sptr
  parent :: "mptr option"
  root_state :: sptr
  element :: "elem option"

text \<open>
  Modelled from the spec: \<^verbatim>\<open>PDF<Motion*>\<close> (ompl/datastructures/PDF.h, missing). Section 6:
  add(item, weight) gives a handle, getWeight(handle), update(handle, newWeight),
  sample(uniform01) gives an item with probability proportional to its weight; section
  4.1: sampling fails only on an empty structure. The PDF is the list of its
  (item, weight) entries in insertion order and a handle is the position of its entry;
  the sample for the draw \<open>r\<close> is the entry in whose share of the total weight \<open>r\<close> falls.
  \<open>pdf_getWeight\<close> and \<open>pdf_update\<close> are for handles of the PDF, \<open>e < length pd\<close>.
\<close>

type_synonym pdf = "(mptr \<times> real) list"

definition pdf_add :: "pdf \<Rightarrow> mptr \<Rightarrow> real \<Rightarrow> pdf \<times> elem" where
  "pdf_add pd d w = (pd @ [(d, w)], length pd)"

definition pdf_getWeight :: "pdf \<Rightarrow> elem \<Rightarrow> real" where
  "pdf_getWeight pd e = snd (pd ! e)"

definition pdf_update :: "pdf \<Rightarrow> elem \<Rightarrow> real \<Rightarrow> pdf" where
  "pdf_update pd e w = pd[e := (fst (pd ! e), w)]"

fun pdf_walk :: "pdf \<Rightarrow> real \<Rightarrow> mptr option" where
  "pdf_walk [] t = None"
| "pdf_walk [(d, w)] t = Some d"
| "pdf_walk ((d, w) # rest) t = (if t < w then Some d else pdf_walk rest (t - w))"

definition pdf_sample :: "pdf \<Rightarrow> real \<Rightarrow> mptr option" where
  "pdf_sample pd r = pdf_walk pd (r * sum_list (map snd pd))"

text \<open>What the code cannot recover from: an exception or a null or foreign handle.\<close>

datatype fault = EmptyPDF | NullElement | BadElement

record 's planner =
  maxDistance :: real
  nbrhoodRadius :: real
  sheap :: "sptr \<Rightarrow> 's"
  snext :: sptr
  mheap :: "mptr \<Rightarrow> Motion"
  mnext :: mptr
  startMotions :: "mptr list"
  goalMotions :: "mptr list"
  startPdf :: pdf
  goalPdf :: pdf
  nnStart :: "mptr list"
  nnGoal :: "mptr list"
  connectionPoint :: "sptr option \<times> sptr option"
  solutions :: "'s list list"

section \<open>setup and the range parameter\<close>

text \<open>
  \<^verbatim>\<open>setup\<close>, lines 58-78 (named \<open>setup_planner\<close> here). \<open>configurePlannerRange\<close> is what
  \<^verbatim>\<open>tools::SelfConfig::configurePlannerRange\<close> leaves in its reference argument,
  a parameter here. The two nearest-neighbour indices are allocated when absent and get
  the distance function; in the model the indices always exist and the queries take the
  distance function as an argument, so these lines change nothing.
\<close>

definition setup_planner :: "(real \<Rightarrow> real) \<Rightarrow> ('s, 'z) planner_scheme \<Rightarrow> ('s, 'z) planner_scheme" where
  "setup_planner configurePlannerRange p =
     (if maxDistance p < 1 / 1000 then
        let d = configurePlannerRange (maxDistance p)
        in p\<lparr>maxDistance := d, nbrhoodRadius := d / 3\<rparr>
      else p)"

text \<open>
  Modelled from the spec: \<^verbatim>\<open>setRange\<close> is defined in BiRealEST.h, which is missing.
  Section 6: the neighborhood radius is derived from the range, range/3, and is not
  independently settable.
\<close>

definition setRange :: "real \<Rightarrow> ('s, 'z) planner_scheme \<Rightarrow> ('s, 'z) planner_scheme" where
  "setRange d p = p\<lparr>maxDistance := d, nbrhoodRadius := d / 3\<rparr>"

text \<open>
  The constructor, lines 43-51: the range is 0 and the connection record is a pair of null
  pointers. The constructor does not assign the neighborhood radius; \<open>r0\<close> is whatever it
  holds.
\<close>

definition BiRealEST :: "real \<Rightarrow> (sptr \<Rightarrow> 's) \<Rightarrow> (mptr \<Rightarrow> Motion) \<Rightarrow> 's planner" where
  "BiRealEST r0 sh mh =
     \<lparr>maxDistance = 0, nbrhoodRadius = r0, sheap = sh, snext = 0, mheap = mh, mnext = 0,
      startMotions = [], goalMotions = [], startPdf = [], goalPdf = [],
      nnStart = [], nnGoal = [], connectionPoint = (None, None), solutions = []\<rparr>"

section \<open>External collaborators\<close>

text \<open>
  What the planner asks of the space information, the goal and the problem definition.
  \<open>distance\<close> is \<^verbatim>\<open>si_->distance\<close>, \<open>checkMotion\<close> is \<^verbatim>\<open>si_->checkMotion\<close>,
  \<open>goalSampleable\<close> says whether the dynamic cast of the goal to
  \<^verbatim>\<open>GoalSampleableRegion\<close> succeeds, \<open>couldSample\<close> and \<open>isStartGoalPairValid\<close> are
  the goal's methods, \<open>startStates\<close> are the initial states of the problem that were not
  yet handed to the planner and \<open>isValid\<close> is the validity check of a state.
\<close>

record 's env =
  distance :: "'s \<Rightarrow> 's \<Rightarrow> real"
  checkMotion :: "'s \<Rightarrow> 's \<Rightarrow> bool"
  isValid :: "'s \<Rightarrow> bool"
  startStates :: "'s list"
  goalSampleable :: bool
  couldSample :: bool
  isStartGoalPairValid :: "'s \<Rightarrow> 's \<Rightarrow> bool"

text \<open>
  Modelled from the spec: \<^verbatim>\<open>pis_.nextStart()\<close> (PlannerInputStates, missing). Section 4.2:
  the sampled initial states that pass validity are the valid start states; the calls hand
  them out one by one, in order, and then return null. \<open>nextStart_all\<close> is the list of
  the states handed out.
\<close>

definition nextStart_all :: "'s env \<Rightarrow> 's list" where
  "nextStart_all env = filter (isValid env) (startStates env)"

declare nextStart_all_def [simp]

text \<open>
  What one iteration of the main loop reads from the outside: the termination condition
  at the loop test, \<^verbatim>\<open>pis_.getSampledGoalsCount()\<close>, the answer of
  \<^verbatim>\<open>pis_.nextGoal\<close> (the argument says whether the call is the blocking one,
  \<^verbatim>\<open>nextGoal(ptc)\<close>), the two draws of \<^verbatim>\<open>rng_.uniform01()\<close> (line 191 and line 206)
  and the answer of \<^verbatim>\<open>sampler_->sampleNear\<close> for an anchor and a distance (\<open>None\<close> when
  it returns false, else the state written to \<^verbatim>\<open>xstate\<close>).
\<close>

record 's tick =
  ptc :: bool
  sampledGoalsCount :: nat
  nextGoal :: "bool \<Rightarrow> 's option"
  uniform01_seed :: real
  sampleNear :: "'s \<Rightarrow> real \<Rightarrow> 's option"
  uniform01_reject :: real

text \<open>
  Modelled from the spec: \<^verbatim>\<open>NearestNeighbors<Motion*>\<close> (missing) and the planner's
  \<^verbatim>\<open>distanceFunction\<close> (BiRealEST.h, missing), the space's distance between the states of
  two motions. Section 6: the index supports add(node) and a radius query that answers
  with the members within the radius, in an order fixed by the distance function and the
  insertion order; here the index is the list of its members and the answer keeps the
  insertion order. The query motion is given by the contents of its state.
\<close>

definition nn_add :: "mptr list \<Rightarrow> mptr \<Rightarrow> mptr list" where
  "nn_add nn m = nn @ [m]"

declare nn_add_def [simp]

definition nearestR ::
  "'s env \<Rightarrow> (sptr \<Rightarrow> 's) \<Rightarrow> (mptr \<Rightarrow> Motion) \<Rightarrow> mptr list \<Rightarrow> 's \<Rightarrow> real \<Rightarrow> mptr list" where
  "nearestR env sh h nn q r = filter (\<lambda>m. distance env (sh (state (h m))) q \<le> r) nn"

section \<open>addMotion\<close>

text \<open>
  Lines 280-285: the loop over the neighbours. Each neighbour's handle is read from the
  motion and its weight replaced by w / (w + 1).
\<close>

fun update_neighbors :: "(mptr \<Rightarrow> Motion) \<Rightarrow> pdf \<Rightarrow> mptr list \<Rightarrow> fault + pdf" where
  "update_neighbors h pd [] = Inr pd"
| "update_neighbors h pd (n # ns) =
     (case element (h n) of
        None \<Rightarrow> Inl NullElement
      | Some e \<Rightarrow>
          if e < length pd then
            let w = pdf_getWeight pd e
            in update_neighbors h (pdf_update pd e (w / (w + 1))) ns
          else Inl BadElement)"

text \<open>
  Lines 275-290. The arguments passed by reference (the motion list, the PDF, the
  nearest-neighbour index) and the motion heap, which receives the new handle, are
  returned updated.
\<close>

definition addMotion ::
  "mptr \<Rightarrow> mptr list \<Rightarrow> (mptr \<Rightarrow> Motion) \<times> mptr list \<times> pdf \<times> mptr list \<Rightarrow>
   fault + ((mptr \<Rightarrow> Motion) \<times> mptr list \<times> pdf \<times> mptr list)" where
  "addMotion motion neighbors t =
     (case t of (h, motions, pd, nn) \<Rightarrow>
       (case update_neighbors h pd neighbors of
          Inl f \<Rightarrow> Inl f
        | Inr pd1 \<Rightarrow>
            (case pdf_add pd1 motion (1 / (real (length neighbors) + 1)) of
               (pd2, e) \<Rightarrow>
                 Inr (h(motion := (h motion)\<lparr>element := Some e\<rparr>),
                      motions @ [motion], pd2, nn_add nn motion))))"

section \<open>Creating and inserting motions\<close>

text \<open>
  \<^verbatim>\<open>new Motion(si_)\<close> followed by \<^verbatim>\<open>copyState\<close> and the assignments of parent and root
  (lines 131-133, 170-172, 214-217). The constructor allocates the motion's own state;
  \<open>rt = None\<close> stands for \<^verbatim>\<open>motion->root = motion->state\<close>.
\<close>

definition newMotion :: "'s \<Rightarrow> mptr option \<Rightarrow> sptr option \<Rightarrow> 's planner \<Rightarrow> mptr \<times> 's planner" where
  "newMotion st par rt p =
     (let a = snext p; m = mnext p
      in (m, p\<lparr>sheap := (sheap p)(a := st), snext := Suc a,
                mheap := (mheap p)(m := \<lparr>state = a, parent = par,
                                          root_state = (case rt of None \<Rightarrow> a | Some r \<Rightarrow> r),
                                          element = None\<rparr>),
                mnext := Suc m\<rparr>))"

text \<open>Lines 186-188: the members the references \<^verbatim>\<open>motions\<close>, \<^verbatim>\<open>pdf\<close> and \<^verbatim>\<open>nn\<close> name.\<close>

definition tree_of :: "bool \<Rightarrow> 's planner \<Rightarrow> (mptr \<Rightarrow> Motion) \<times> mptr list \<times> pdf \<times> mptr list" where
  "tree_of startTree p =
     (if startTree then (mheap p, startMotions p, startPdf p, nnStart p)
      else (mheap p, goalMotions p, goalPdf p, nnGoal p))"

definition put_tree ::
  "bool \<Rightarrow> (mptr \<Rightarrow> Motion) \<times> mptr list \<times> pdf \<times> mptr list \<Rightarrow> 's planner \<Rightarrow> 's planner" where
  "put_tree startTree t p =
     (case t of (h, ms, pd, nn) \<Rightarrow>
        if startTree then p\<lparr>mheap := h, startMotions := ms, startPdf := pd, nnStart := nn\<rparr>
        else p\<lparr>mheap := h, goalMotions := ms, goalPdf := pd, nnGoal := nn\<rparr>)"

definition addMotion_to :: "bool \<Rightarrow> mptr \<Rightarrow> mptr list \<Rightarrow> 's planner \<Rightarrow> fault + 's planner" where
  "addMotion_to startTree motion neighbors p =
     (case addMotion motion neighbors (tree_of startTree p) of
        Inl f \<Rightarrow> Inl f
      | Inr t \<Rightarrow> Inr (put_tree startTree t p))"

text \<open>Lines 131-136 (start side) and 170-175 (goal side): a root motion for a sampled state.\<close>

definition addRoot :: "'s env \<Rightarrow> bool \<Rightarrow> 's \<Rightarrow> 's planner \<Rightarrow> fault + 's planner" where
  "addRoot env startTree st p =
     (case newMotion st None None p of
        (motion, p1) \<Rightarrow>
          let neighbors = nearestR env (sheap p1) (mheap p1)
                            (if startTree then nnStart p1 else nnGoal p1) st (nbrhoodRadius p1)
          in addMotion_to startTree motion neighbors p1)"

text \<open>Lines 129-137: the loop over the states \<^verbatim>\<open>pis_.nextStart()\<close> hands out.\<close>

fun nextStarts :: "'s env \<Rightarrow> 's list \<Rightarrow> 's planner \<Rightarrow> fault + 's planner" where
  "nextStarts env [] p = Inr p"
| "nextStarts env (st # sts) p =
     (case addRoot env True st p of
        Inl f \<Rightarrow> Inl f
      | Inr p1 \<Rightarrow> nextStarts env sts p1)"

section \<open>The solution path\<close>

text \<open>
  Lines 235-241 and 243-249: the walk along the parent pointers, which pushes every motion
  met. It does not return when the parent pointers form a cycle.
\<close>

partial_function (option) mpath ::
  "(mptr \<Rightarrow> Motion) \<Rightarrow> mptr option \<Rightarrow> mptr list \<Rightarrow> mptr list option" where
  "mpath h solution acc =
     (case solution of
        None \<Rightarrow> Some acc
      | Some m \<Rightarrow> mpath h (parent (h m)) (acc @ [m]))"

text \<open>
  Lines 235-256: the path appended to the problem definition, the states of the first walk
  from its last motion to its first, then the states of the second walk in order.
\<close>

definition solutionPath :: "'s planner \<Rightarrow> mptr \<Rightarrow> mptr \<Rightarrow> 's list option" where
  "solutionPath p startMotion goalMotion =
     (case mpath (mheap p) (Some startMotion) [] of
        None \<Rightarrow> None
      | Some mpath1 \<Rightarrow>
          (case mpath (mheap p) (Some goalMotion) [] of
             None \<Rightarrow> None
           | Some mpath2 \<Rightarrow>
               Some (map (\<lambda>m. sheap p (state (mheap p m))) (rev mpath1)
                     @ map (\<lambda>m. sheap p (state (mheap p m))) mpath2)))"

section \<open>The main loop\<close>

text \<open>
  Lines 225-261: the scan of the other tree's neighbours. The list is the part of
  \<^verbatim>\<open>neighbors\<close> from index \<open>i\<close> on; the result is the value of \<open>i\<close> when the loop is left,
  the flag \<^verbatim>\<open>solved\<close> and the planner.
\<close>

fun connect ::
  "'s env \<Rightarrow> bool \<Rightarrow> mptr \<Rightarrow> mptr list \<Rightarrow> nat \<Rightarrow> 's planner \<Rightarrow> (nat \<times> bool \<times> 's planner) option" where
  "connect env startTree motion [] i p = Some (i, False, p)"
| "connect env startTree motion (n # ns) i p =
     (if isStartGoalPairValid env (sheap p (root_state (mheap p motion)))
                                  (sheap p (root_state (mheap p n)))
         \<and> checkMotion env (sheap p (state (mheap p motion))) (sheap p (state (mheap p n)))
      then
        (case solutionPath p (if startTree then motion else n) (if startTree then n else motion) of
           None \<Rightarrow> None
         | Some path \<Rightarrow>
             Some (Suc i, True,
                   p\<lparr>connectionPoint := (Some (state (mheap p motion)), Some (state (mheap p n))),
                     solutions := solutions p @ [path]\<rparr>))
      else connect env startTree motion ns (Suc i) p)"

text \<open>Lines 203-208: whether the candidate is dropped, for \<open>k\<close> neighbours and the draw \<open>u\<close>.\<close>

definition reject :: "nat \<Rightarrow> real \<Rightarrow> bool" where
  "reject k u = (if k \<noteq> 0 then (let pr = 1 - 1 / real k in u < pr) else False)"

text \<open>How an iteration ends: at a \<^verbatim>\<open>continue\<close>, at the end of the body (line 265), at the \<^verbatim>\<open>break\<close>.\<close>

datatype flow = Continue | FallThrough | Break

record 's locals =
  pl :: "'s planner"
  startTree :: bool
  solved :: bool

text \<open>
  Lines 165-183: the goal tree is given a sample when it is empty or small. The flag says
  whether the \<^verbatim>\<open>break\<close> of line 181 is taken.
\<close>

definition replenish :: "'s env \<Rightarrow> 's tick \<Rightarrow> 's planner \<Rightarrow> fault + (bool \<times> 's planner)" where
  "replenish env t p =
     (if goalMotions p = [] \<or> sampledGoalsCount t < length (goalMotions p) div 2 then
        (case (case nextGoal t (goalMotions p = []) of
                 None \<Rightarrow> Inr p
               | Some st \<Rightarrow> addRoot env False st p) of
           Inl f \<Rightarrow> Inl f
         | Inr p1 \<Rightarrow> Inr (goalMotions p1 = [], p1))
      else Inr (False, p))"

text \<open>
  Lines 186-262: the selected tree is sampled, a candidate is drawn near the selected
  motion, dropped by density or kept, and a kept candidate with a valid motion is inserted
  and connected to the other tree. \<^verbatim>\<open>PDF::sample\<close> on an empty PDF throws.
\<close>

definition expand :: "'s env \<Rightarrow> 's tick \<Rightarrow> 's locals \<Rightarrow> (fault + (flow \<times> 's locals)) option" where
  "expand env t l =
     (let p = pl l;
          pd = (if startTree l then startPdf p else goalPdf p);
          nn = (if startTree l then nnStart p else nnGoal p)
      in case pdf_sample pd (uniform01_seed t) of
           None \<Rightarrow> Some (Inl EmptyPDF)
         | Some existing \<Rightarrow>
             (case sampleNear t (sheap p (state (mheap p existing))) (maxDistance p) of
                None \<Rightarrow> Some (Inr (Continue, l))
              | Some xstate \<Rightarrow>
                  let neighbors = nearestR env (sheap p) (mheap p) nn xstate (nbrhoodRadius p)
                  in if reject (length neighbors) (uniform01_reject t) then Some (Inr (Continue, l))
                     else if checkMotion env (sheap p (state (mheap p existing))) xstate then
                       (case newMotion xstate (Some existing)
                               (Some (root_state (mheap p existing))) p of
                          (motion, p1) \<Rightarrow>
                            (case addMotion_to (startTree l) motion neighbors p1 of
                               Inl f \<Rightarrow> Some (Inl f)
                             | Inr p2 \<Rightarrow>
                                 let others = nearestR env (sheap p2) (mheap p2)
                                                (if startTree l then nnGoal p2 else nnStart p2)
                                                (sheap p2 (state (mheap p2 motion))) (maxDistance p2)
                                 in (case connect env (startTree l) motion others 0 p2 of
                                       None \<Rightarrow> None
                                     | Some (i, s, p3) \<Rightarrow>
                                         Some (Inr (FallThrough, l\<lparr>pl := p3, solved := s\<rparr>)))))
                     else Some (Inr (FallThrough, l))))"

text \<open>Lines 163-265 without the flip: one pass through the body of the loop.\<close>

definition iteration :: "'s env \<Rightarrow> 's tick \<Rightarrow> 's locals \<Rightarrow> (fault + (flow \<times> 's locals)) option" where
  "iteration env t l =
     (case replenish env t (pl l) of
        Inl f \<Rightarrow> Some (Inl f)
      | Inr (brk, p1) \<Rightarrow>
          if brk then Some (Inr (Break, l\<lparr>pl := p1\<rparr>))
          else expand env t (l\<lparr>pl := p1\<rparr>))"

text \<open>
  Lines 162-266: the loop. \<open>ts i\<close> is what iteration \<open>i\<close> reads. The list \<open>tr\<close> is a history
  that the code does not keep: for every iteration run, the value of \<^verbatim>\<open>startTree\<close> in it
  and how it ended. The loop does not return when the termination condition never holds
  and no solution is found.
\<close>

partial_function (option) loop ::
  "'s env \<Rightarrow> (nat \<Rightarrow> 's tick) \<Rightarrow> nat \<Rightarrow> 's locals \<Rightarrow> (bool \<times> flow) list \<Rightarrow>
   (fault + ('s locals \<times> (bool \<times> flow) list)) option" where
  "loop env ts i l tr =
     (if ptc (ts i) \<or> solved l then Some (Inr (l, tr))
      else
        (case iteration env (ts i) l of
           None \<Rightarrow> None
         | Some (Inl f) \<Rightarrow> Some (Inl f)
         | Some (Inr (fl, l1)) \<Rightarrow>
             (case fl of
                Break \<Rightarrow> Some (Inr (l1, tr @ [(startTree l, Break)]))
              | Continue \<Rightarrow> loop env ts (Suc i) l1 (tr @ [(startTree l, Continue)])
              | FallThrough \<Rightarrow>
                  loop env ts (Suc i) (l1\<lparr>startTree := \<not> startTree l1\<rparr>)
                    (tr @ [(startTree l, FallThrough)]))))"

datatype PlannerStatus =
  EXACT_SOLUTION | TIMEOUT | INVALID_START | INVALID_GOAL | UNRECOGNIZED_GOAL_TYPE

text \<open>
  \<^verbatim>\<open>solve\<close>, lines 116-273. \<^verbatim>\<open>checkValidity\<close> of the base class (missing) is taken to
  return. The allocation of the sampler (line 151) and of the scratch state and motion
  (lines 156-157, freed at 268-269) have no counterpart: the sampler's answers are read
  from the iteration inputs and the candidate is passed by value. The result is the
  status, the planner and the history of the loop.
\<close>

definition solve ::
  "'s env \<Rightarrow> (nat \<Rightarrow> 's tick) \<Rightarrow> 's planner \<Rightarrow>
   (fault + (PlannerStatus \<times> 's planner \<times> (bool \<times> flow) list)) option" where
  "solve env ts p =
     (if \<not> goalSampleable env then Some (Inr (UNRECOGNIZED_GOAL_TYPE, p, []))
      else
        (case nextStarts env (nextStart_all env) p of
           Inl f \<Rightarrow> Some (Inl f)
         | Inr p1 \<Rightarrow>
             if startMotions p1 = [] then Some (Inr (INVALID_START, p1, []))
             else if \<not> couldSample env then Some (Inr (INVALID_GOAL, p1, []))
             else
               (case loop env ts 0 \<lparr>pl = p1, startTree = True, solved = False\<rparr> [] of
                  None \<Rightarrow> None
                | Some (Inl f) \<Rightarrow> Some (Inl f)
                | Some (Inr (l, tr)) \<Rightarrow>
                    Some (Inr (if solved l then EXACT_SOLUTION else TIMEOUT, pl l, tr)))))"

section \<open>getPlannerData\<close>

text \<open>
  Modelled from the spec: \<^verbatim>\<open>base::PlannerData\<close> and \<^verbatim>\<open>base::PlannerDataVertex\<close> (missing).
  Section 4.4: the export emits vertices tagged by side and directed edges, and the edge
  between the bridging vertices is absent when the connection record was never set. The
  container is a graph whose vertices are identified by their state pointer: a vertex is
  added once and keeps its first tag, \<open>vertexIndex\<close> of a null pointer or of a state
  that is no vertex is invalid (\<open>None\<close>), an edge given by vertices adds the vertices that
  are missing, an edge given by indices is added only when both indices are valid, and an
  edge is held once. A vertex index is represented by the state of its vertex.
\<close>

record PlannerData =
  vertexTag :: "sptr \<Rightarrow> nat option"
  startVertices :: "sptr set"
  goalVertices :: "sptr set"
  edges :: "(sptr \<times> sptr) set"

definition emptyData :: PlannerData where
  "emptyData = \<lparr>vertexTag = (\<lambda>a. None), startVertices = {}, goalVertices = {}, edges = {}\<rparr>"

definition vertexIndex :: "PlannerData \<Rightarrow> sptr option \<Rightarrow> sptr option" where
  "vertexIndex d s =
     (case s of
        None \<Rightarrow> None
      | Some a \<Rightarrow> (case vertexTag d a of None \<Rightarrow> None | Some t \<Rightarrow> Some a))"

definition addVertex :: "sptr \<times> nat \<Rightarrow> PlannerData \<Rightarrow> PlannerData" where
  "addVertex v d =
     (case vertexTag d (fst v) of
        None \<Rightarrow> d\<lparr>vertexTag := (vertexTag d)(fst v := Some (snd v))\<rparr>
      | Some t \<Rightarrow> d)"

definition addStartVertex :: "sptr \<times> nat \<Rightarrow> PlannerData \<Rightarrow> PlannerData" where
  "addStartVertex v d = (addVertex v d)\<lparr>startVertices := insert (fst v) (startVertices d)\<rparr>"

definition addGoalVertex :: "sptr \<times> nat \<Rightarrow> PlannerData \<Rightarrow> PlannerData" where
  "addGoalVertex v d = (addVertex v d)\<lparr>goalVertices := insert (fst v) (goalVertices d)\<rparr>"

definition addEdge_index :: "sptr option \<Rightarrow> sptr option \<Rightarrow> PlannerData \<Rightarrow> PlannerData" where
  "addEdge_index i j d =
     (case i of
        None \<Rightarrow> d
      | Some a \<Rightarrow>
          (case j of
             None \<Rightarrow> d
           | Some b \<Rightarrow>
               if vertexTag d a \<noteq> None \<and> vertexTag d b \<noteq> None
               then d\<lparr>edges := insert (a, b) (edges d)\<rparr> else d))"

definition addEdge_vertex :: "sptr \<times> nat \<Rightarrow> sptr \<times> nat \<Rightarrow> PlannerData \<Rightarrow> PlannerData" where
  "addEdge_vertex v1 v2 d =
     (let d1 = addVertex v1 d; d2 = addVertex v2 d1
      in addEdge_index (Some (fst v1)) (Some (fst v2)) d2)"

text \<open>Lines 296-303 and 305-313: the bodies of the two loops over the motions.\<close>

definition startStep :: "(mptr \<Rightarrow> Motion) \<Rightarrow> mptr \<Rightarrow> PlannerData \<Rightarrow> PlannerData" where
  "startStep h m d =
     (case parent (h m) of
        None \<Rightarrow> addStartVertex (state (h m), 1) d
      | Some q \<Rightarrow> addEdge_vertex (state (h q), 1) (state (h m), 1) d)"

definition goalStep :: "(mptr \<Rightarrow> Motion) \<Rightarrow> mptr \<Rightarrow> PlannerData \<Rightarrow> PlannerData" where
  "goalStep h m d =
     (case parent (h m) of
        None \<Rightarrow> addGoalVertex (state (h m), 2) d
      | Some q \<Rightarrow> addEdge_vertex (state (h m), 2) (state (h q), 2) d)"

text \<open>
  \<^verbatim>\<open>getPlannerData\<close>, lines 292-317. \<^verbatim>\<open>Planner::getPlannerData\<close> of the base class
  (missing) is taken to add no vertex and no edge. The last call passes the two halves of
  the connection record to \<open>vertexIndex\<close> and the two answers to the edge by indices.
\<close>

definition getPlannerData :: "'s planner \<Rightarrow> PlannerData \<Rightarrow> PlannerData" where
  "getPlannerData p d =
     (let d1 = fold (startStep (mheap p)) (startMotions p) d;
          d2 = fold (goalStep (mheap p)) (goalMotions p) d1
      in addEdge_index (vertexIndex d2 (fst (connectionPoint p)))
                       (vertexIndex d2 (snd (connectionPoint p))) d2)"

section \<open>Notions used to state the properties\<close>

text \<open>
  \<open>chain_of h m c\<close>: the list \<open>c\<close> is the parent chain of \<open>m\<close>, from \<open>m\<close> itself, each motion
  followed by its parent, to a motion without parent (a root).
\<close>

fun chain_of :: "(mptr \<Rightarrow> Motion) \<Rightarrow> mptr \<Rightarrow> mptr list \<Rightarrow> bool" where
  "chain_of h m [] = False"
| "chain_of h m [x] = (x = m \<and> parent (h m) = None)"
| "chain_of h m (x # y # r) = (x = m \<and> parent (h m) = Some y \<and> chain_of h y (y # r))"

text \<open>
  The shape of the heap and of a tree that the planner keeps (section 3 of the spec): a
  parent was allocated before its child; the motion list, the PDF and the index of a side
  hold the same motions in the same order, each allocated, each holding the handle of its
  own PDF entry, and the parent of a member is a member; the state of every member is
  allocated, no two members share a state, and no motion is in both trees.
\<close>

definition parents_ok :: "(mptr \<Rightarrow> Motion) \<Rightarrow> mptr \<Rightarrow> bool" where
  "parents_ok h mn = (\<forall>m<mn. \<forall>q. parent (h m) = Some q \<longrightarrow> q < m)"

definition tree_ok :: "(mptr \<Rightarrow> Motion) \<Rightarrow> mptr \<Rightarrow> mptr list \<Rightarrow> pdf \<Rightarrow> mptr list \<Rightarrow> bool" where
  "tree_ok h mn ms pd nn =
     (map fst pd = ms \<and> nn = ms \<and> distinct ms \<and> (\<forall>m\<in>set ms. m < mn)
      \<and> (\<forall>i<length ms. element (h (ms ! i)) = Some i)
      \<and> (\<forall>m\<in>set ms. \<forall>q. parent (h m) = Some q \<longrightarrow> q \<in> set ms))"

definition states_ok :: "(mptr \<Rightarrow> Motion) \<Rightarrow> sptr \<Rightarrow> mptr list \<Rightarrow> mptr list \<Rightarrow> bool" where
  "states_ok h sn ms gs =
     ((\<forall>m\<in>set ms \<union> set gs. state (h m) < sn)
      \<and> inj_on (\<lambda>m. state (h m)) (set ms \<union> set gs)
      \<and> set ms \<inter> set gs = {})"

definition planner_ok :: "'s planner \<Rightarrow> bool" where
  "planner_ok p =
     (parents_ok (mheap p) (mnext p)
      \<and> tree_ok (mheap p) (mnext p) (startMotions p) (startPdf p) (nnStart p)
      \<and> tree_ok (mheap p) (mnext p) (goalMotions p) (goalPdf p) (nnGoal p)
      \<and> states_ok (mheap p) (snext p) (startMotions p) (goalMotions p))"

text \<open>
  \<open>follows b tr\<close>: in the history \<open>tr\<close> of a loop entered with \<^verbatim>\<open>startTree = b\<close>, every
  iteration runs on the side of the iteration before it when that one ended at a
  \<^verbatim>\<open>continue\<close>, and on the other side when that one reached the end of the body.
  \<open>alternates\<close>: no two neighbours of a list are equal.
\<close>

fun follows :: "bool \<Rightarrow> (bool \<times> flow) list \<Rightarrow> bool" where
  "follows b [] = True"
| "follows b ((s, f) # r) = (s = b \<and> follows (if f = FallThrough then \<not> b else b) r)"

fun alternates :: "bool list \<Rightarrow> bool" where
  "alternates (a # b # r) = (a \<noteq> b \<and> alternates (b # r))"
| "alternates r = True"

text \<open>
  \<open>bridged p s p'\<close>: what a stretch of the loop that ends with \<^verbatim>\<open>solved = s\<close> has done to
  the results of the planner \<open>p\<close>: when \<open>s\<close>, one path was appended to the solutions and the
  connection record holds two states; otherwise both are as they were.
\<close>

definition bridged :: "'s planner \<Rightarrow> bool \<Rightarrow> 's planner \<Rightarrow> bool" where
  "bridged p s p' =
     (if s then (\<exists>path. solutions p' = solutions p @ [path])
               \<and> (\<exists>a b. connectionPoint p' = (Some a, Some b))
      else solutions p' = solutions p \<and> connectionPoint p' = connectionPoint p)"

section \<open>Example data\<close>

text \<open>
  A one-dimensional space: states are reals, the distance is the absolute difference,
  every state and motion is valid. The planner has range 3, so neighborhood radius 1.
\<close>

definition heap0 :: "mptr \<Rightarrow> Motion" where
  "heap0 = (\<lambda>a. \<lparr>state = 0, parent = None, root_state = 0, element = None\<rparr>)"

definition planner0 :: "real planner" where
  "planner0 = setRange 3 (BiRealEST 0 (\<lambda>a. 0) heap0)"

definition env1 :: "real env" where
  "env1 = \<lparr>distance = (\<lambda>a b. \<bar>a - b\<bar>), checkMotion = (\<lambda>a b. True), isValid = (\<lambda>s. True),
           startStates = [0], goalSampleable = True, couldSample = True,
           isStartGoalPairValid = (\<lambda>a b. True)\<rparr>"

definition tick_go :: "real tick" where
  "tick_go = \<lparr>ptc = False, sampledGoalsCount = 0, nextGoal = (\<lambda>b. Some 2), uniform01_seed = 0,
              sampleNear = (\<lambda>a d. Some (a + 1)), uniform01_reject = 0\<rparr>"

definition tick_fail :: "real tick" where
  "tick_fail = tick_go\<lparr>sampleNear := (\<lambda>a d. None)\<rparr>"

definition tick_stop :: "real tick" where
  "tick_stop = tick_go\<lparr>ptc := True\<rparr>"

text \<open>Two motions that hold the handles 0 and 1 of a PDF with the weights 1 and 1/2.\<close>

definition heap2 :: "mptr \<Rightarrow> Motion" where
  "heap2 = (\<lambda>a. \<lparr>state = a, parent = None, root_state = a,
                   element = (if a < 2 then Some a else None)\<rparr>)"

definition pdf2 :: pdf where
  "pdf2 = [(0, 1), (1, 1 / 2)]"

text \<open>The planner after the start state 0 was inserted as a root.\<close>

definition planner1 :: "real planner" where
  "planner1 = planner0\<lparr>sheap := (\<lambda>a. 0), snext := 1,
       mheap := heap0(0 := \<lparr>state = 0, parent = None, root_state = 0, element = Some 0\<rparr>),
       mnext := 1, startMotions := [0], startPdf := [(0, 1)], nnStart := [0]\<rparr>"

text \<open>A planner with the two start roots 0 and 1/2, each of weight 1/2.\<close>

definition planner2 :: "real planner" where
  "planner2 = planner0\<lparr>sheap := (\<lambda>a. 0)(1 := 1 / 2), snext := 2,
       mheap := heap0(0 := \<lparr>state = 0, parent = None, root_state = 0, element = Some 0\<rparr>,
                      1 := \<lparr>state = 1, parent = None, root_state = 1, element = Some 1\<rparr>),
       mnext := 2, startMotions := [0, 1], startPdf := [(0, 1 / 2), (1, 1 / 2)],
       nnStart := [0, 1]\<rparr>"

text \<open>The planner after, in addition, the goal sample 2 was inserted as a root.\<close>

definition planner1g :: "real planner" where
  "planner1g = planner1\<lparr>sheap := (\<lambda>a. 0)(1 := 2), snext := 2,
       mheap := (mheap planner1)(1 := \<lparr>state = 1, parent = None, root_state = 1, element = Some 0\<rparr>),
       mnext := 2, goalMotions := [1], goalPdf := [(1, 1)], nnGoal := [1]\<rparr>"

text \<open>
  The planner after, in addition, the candidate 1 was inserted on the start side as a
  child of the start root.
\<close>

definition planner3 :: "real planner" where
  "planner3 = planner1g\<lparr>sheap := (\<lambda>a. 0)(1 := 2, 2 := 1), snext := 3,
       mheap := (mheap planner1g)(2 := \<lparr>state = 2, parent = Some 0, root_state = 0, element = Some 1\<rparr>),
       mnext := 3, startMotions := [0, 2], startPdf := [(0, 1 / 2), (2, 1 / 2)],
       nnStart := [0, 2]\<rparr>"

text \<open>
  A space in which the goal accepts no pairing of roots and a motion is valid when it
  ends at 3/2 or below, and an iteration input whose rejection draw is 3/4.
\<close>

definition env2 :: "real env" where
  "env2 = env1\<lparr>checkMotion := (\<lambda>a b. b \<le> 3 / 2), isStartGoalPairValid := (\<lambda>a b. False)\<rparr>"

definition tick_keep :: "real tick" where
  "tick_keep = tick_go\<lparr>uniform01_reject := 3 / 4\<rparr>"

text \<open>An iteration input for which no goal sample comes.\<close>

definition tick_nogoal :: "real tick" where
  "tick_nogoal = tick_go\<lparr>nextGoal := (\<lambda>b. None)\<rparr>"

text \<open>The planner after that insertion was bridged to the goal root.\<close>

definition planner4 :: "real planner" where
  "planner4 = planner3\<lparr>connectionPoint := (Some 2, Some 1), solutions := [[0, 1, 2]]\<rparr>"

text \<open>
  A goal that accepts exactly the start root 0 paired with the goal root 2, an iteration
  input whose candidate lies one below the anchor, and the planner after the candidate 1
  was inserted on the goal side as a child of the goal root.
\<close>

definition env3 :: "real env" where
  "env3 = env1\<lparr>isStartGoalPairValid := (\<lambda>a b. a = 0 \<and> b = 2)\<rparr>"

definition tick_back :: "real tick" where
  "tick_back = tick_go\<lparr>sampleNear := (\<lambda>a d. Some (a - 1))\<rparr>"

definition planner3g :: "real planner" where
  "planner3g = planner1g\<lparr>sheap := (\<lambda>a. 0)(1 := 2, 2 := 1), snext := 3,
       mheap := (mheap planner1g)(2 := \<lparr>state = 2, parent = Some 1, root_state = 1, element = Some 1\<rparr>),
       mnext := 3, goalMotions := [1, 2], goalPdf := [(1, 1 / 2), (2, 1 / 2)],
       nnGoal := [1, 2]\<rparr>"

section \<open>Properties of setup\<close>

lemma setup_radius:
  "maxDistance p < 1 / 1000 \<or> nbrhoodRadius p = maxDistance p / 3 \<Longrightarrow>
   nbrhoodRadius (setup_planner cfg p) = maxDistance (setup_planner cfg p) / 3"
  by (auto simp: setup_planner_def Let_def)

text \<open>
  C9. setup leaves a range of 1/1000 or more and the radius beside it as they are, and
  replaces a smaller range by the self-configured one with a third of it as radius. So
  after setRange d and setup the range is d (the self-configured range when d is below
  1/1000) and the neighborhood radius is one third of that range; after the constructor
  and setup the range is the self-configured one and the radius one third of it. No other
  member of the planner changes.
\<close>

theorem C9_radius_is_third_of_range:
  "maxDistance (setup_planner cfg p)
     = (if maxDistance p < 1 / 1000 then cfg (maxDistance p) else maxDistance p)
   \<and> nbrhoodRadius (setup_planner cfg p)
     = (if maxDistance p < 1 / 1000 then cfg (maxDistance p) / 3 else nbrhoodRadius p)
   \<and> setup_planner cfg (setRange d p)
     = p\<lparr>maxDistance := (if d < 1 / 1000 then cfg d else d),
         nbrhoodRadius := (if d < 1 / 1000 then cfg d else d) / 3\<rparr>
   \<and> maxDistance (setup_planner cfg (setRange d p)) = (if d < 1 / 1000 then cfg d else d)
   \<and> nbrhoodRadius (setup_planner cfg (setRange d p))
     = maxDistance (setup_planner cfg (setRange d p)) / 3
   \<and> setup_planner cfg (BiRealEST r0 sh mh)
     = (BiRealEST r0 sh mh)\<lparr>maxDistance := cfg 0, nbrhoodRadius := cfg 0 / 3\<rparr>
   \<and> maxDistance (setup_planner cfg (BiRealEST r0 sh mh)) = cfg 0
   \<and> nbrhoodRadius (setup_planner cfg (BiRealEST r0 sh mh))
     = maxDistance (setup_planner cfg (BiRealEST r0 sh mh)) / 3"
  by (simp add: setup_planner_def BiRealEST_def setRange_def Let_def)

section \<open>Properties of addMotion\<close>

lemma update_neighbors_ok:
  "distinct ns \<Longrightarrow> \<forall>n\<in>set ns. \<exists>e. element (h n) = Some e \<and> e < length pd \<Longrightarrow>
   inj_on (\<lambda>n. element (h n)) (set ns) \<Longrightarrow>
   \<exists>pd'. update_neighbors h pd ns = Inr pd' \<and> length pd' = length pd \<and> map fst pd' = map fst pd \<and>
     (\<forall>e<length pd. snd (pd' ! e) =
        (if Some e \<in> (\<lambda>n. element (h n)) ` set ns then snd (pd ! e) / (snd (pd ! e) + 1) else snd (pd ! e)))"
proof (induction ns arbitrary: pd)
  case Nil
  then show ?case by simp
next
  case (Cons n ns)
  from Cons.prems(2) obtain e where e: "element (h n) = Some e" "e < length pd" by auto
  let ?w = "pdf_getWeight pd e"
  let ?pd1 = "pdf_update pd e (?w / (?w + 1))"
  have len1: "length ?pd1 = length pd" by (simp add: pdf_update_def)
  have fst1: "map fst ?pd1 = map fst pd"
    using e(2) by (simp add: pdf_update_def map_update list_update_same_conv)
  have d: "distinct ns" using Cons.prems(1) by simp
  have b: "\<forall>m\<in>set ns. \<exists>e. element (h m) = Some e \<and> e < length ?pd1"
    using Cons.prems(2) len1 by simp
  have i: "inj_on (\<lambda>n. element (h n)) (set ns)"
    using Cons.prems(3) by (simp add: inj_on_def)
  from Cons.IH[OF d b i] obtain pd' where pd':
    "update_neighbors h ?pd1 ns = Inr pd'" "length pd' = length ?pd1" "map fst pd' = map fst ?pd1"
    "\<forall>e'<length ?pd1. snd (pd' ! e') =
        (if Some e' \<in> (\<lambda>n. element (h n)) ` set ns then snd (?pd1 ! e') / (snd (?pd1 ! e') + 1) else snd (?pd1 ! e'))"
    by blast
  have notin: "Some e \<notin> (\<lambda>n. element (h n)) ` set ns"
  proof
    assume "Some e \<in> (\<lambda>n. element (h n)) ` set ns"
    then obtain m where m: "m \<in> set ns" "element (h m) = Some e" by auto
    with Cons.prems(3) e(1) have "m = n" by (auto simp: inj_on_def)
    with m(1) Cons.prems(1) show False by simp
  qed
  have run: "update_neighbors h pd (n # ns) = Inr pd'"
    using e pd'(1) by (simp add: Let_def)
  have w: "\<forall>e'<length pd. snd (pd' ! e') =
        (if Some e' \<in> (\<lambda>n. element (h n)) ` set (n # ns) then snd (pd ! e') / (snd (pd ! e') + 1) else snd (pd ! e'))"
  proof (intro allI impI)
    fix e' assume lt: "e' < length pd"
    show "snd (pd' ! e') =
        (if Some e' \<in> (\<lambda>n. element (h n)) ` set (n # ns) then snd (pd ! e') / (snd (pd ! e') + 1) else snd (pd ! e'))"
    proof (cases "e' = e")
      case True
      then show ?thesis using pd'(4) lt len1 notin e
        by (simp add: pdf_update_def pdf_getWeight_def)
    next
      case False
      then have "snd (?pd1 ! e') = snd (pd ! e')" by (simp add: pdf_update_def)
      moreover have "Some e' \<in> (\<lambda>n. element (h n)) ` set (n # ns) \<longleftrightarrow> Some e' \<in> (\<lambda>n. element (h n)) ` set ns"
        using False e(1) by auto
      ultimately show ?thesis using pd'(4) lt len1 by simp
    qed
  qed
  show ?case using run pd'(2,3) len1 fst1 w by simp
qed

lemma decay_less: "0 < (w::real) \<Longrightarrow> w / (w + 1) < w"
  by (simp add: field_simps)

text \<open>
  C1. addMotion with k distinct neighbours, each holding a handle of the PDF of its own:
  every neighbour's weight w becomes w / (w + 1), which is smaller when w is positive, and
  the new motion enters the PDF with the weight 1 / (k + 1), under the handle stored in it.
\<close>

theorem C1_addMotion_weights:
  assumes "distinct neighbors"
    and "\<forall>n\<in>set neighbors. \<exists>e. element (h n) = Some e \<and> e < length pd"
    and "inj_on (\<lambda>n. element (h n)) (set neighbors)"
  shows "\<exists>h' pd'. addMotion motion neighbors (h, motions, pd, nn)
                     = Inr (h', motions @ [motion], pd', nn @ [motion])
     \<and> length pd' = Suc (length pd)
     \<and> (\<forall>n\<in>set neighbors. \<forall>e. element (h n) = Some e \<longrightarrow>
           pdf_getWeight pd' e = pdf_getWeight pd e / (pdf_getWeight pd e + 1)
           \<and> (0 < pdf_getWeight pd e \<longrightarrow> pdf_getWeight pd' e < pdf_getWeight pd e))
     \<and> element (h' motion) = Some (length pd)
     \<and> pd' ! length pd = (motion, 1 / (real (length neighbors) + 1))
     \<and> pdf_getWeight pd' (length pd) = 1 / (real (length neighbors) + 1)"
proof -
  from update_neighbors_ok[OF assms] obtain pd1 where pd1:
    "update_neighbors h pd neighbors = Inr pd1" "length pd1 = length pd"
    "\<forall>e<length pd. snd (pd1 ! e) =
        (if Some e \<in> (\<lambda>n. element (h n)) ` set neighbors
         then snd (pd ! e) / (snd (pd ! e) + 1) else snd (pd ! e))"
    by blast
  let ?w = "1 / (real (length neighbors) + 1)"
  let ?pd' = "pd1 @ [(motion, ?w)]"
  let ?h' = "h(motion := (h motion)\<lparr>element := Some (length pd)\<rparr>)"
  have run: "addMotion motion neighbors (h, motions, pd, nn)
               = Inr (?h', motions @ [motion], ?pd', nn @ [motion])"
    using pd1(1,2) by (simp add: addMotion_def pdf_add_def)
  have nb: "\<forall>n\<in>set neighbors. \<forall>e. element (h n) = Some e \<longrightarrow>
           pdf_getWeight ?pd' e = pdf_getWeight pd e / (pdf_getWeight pd e + 1)
           \<and> (0 < pdf_getWeight pd e \<longrightarrow> pdf_getWeight ?pd' e < pdf_getWeight pd e)"
  proof (intro ballI allI impI)
    fix n e assume n: "n \<in> set neighbors" and e: "element (h n) = Some e"
    from assms(2) n e have lt: "e < length pd" by auto
    have "Some e \<in> (\<lambda>n. element (h n)) ` set neighbors" using n e by force
    with pd1(3) lt have "snd (pd1 ! e) = snd (pd ! e) / (snd (pd ! e) + 1)" by simp
    then have eq: "pdf_getWeight ?pd' e = pdf_getWeight pd e / (pdf_getWeight pd e + 1)"
      using lt pd1(2) by (simp add: pdf_getWeight_def nth_append)
    show "pdf_getWeight ?pd' e = pdf_getWeight pd e / (pdf_getWeight pd e + 1)
           \<and> (0 < pdf_getWeight pd e \<longrightarrow> pdf_getWeight ?pd' e < pdf_getWeight pd e)"
      using eq decay_less by simp
  qed
  have "length ?pd' = Suc (length pd)" using pd1(2) by simp
  moreover have "element (?h' motion) = Some (length pd)" by simp
  moreover have "?pd' ! length pd = (motion, ?w)" using pd1(2) by (simp add: nth_append)
  moreover have "pdf_getWeight ?pd' (length pd) = ?w"
    using pd1(2) by (simp add: pdf_getWeight_def nth_append)
  ultimately show ?thesis using run nb by blast
qed

theorem C1_addMotion_weights_witness:
  "distinct [0::nat, 1] \<and>
   (\<exists>h' pd'. addMotion 2 [0, 1] (heap2, [0, 1], pdf2, [0, 1]) = Inr (h', [0, 1, 2], pd', [0, 1, 2])
      \<and> pdf_getWeight pd' 0 = 1 / 2 \<and> pdf_getWeight pd' 1 = 1 / 3 \<and> pdf_getWeight pd' 2 = 1 / 3
      \<and> pdf_getWeight pd' 0 < pdf_getWeight pdf2 0)"
proof -
  have a: "distinct [0::nat, 1]" by simp
  have b: "\<forall>n\<in>set [0::nat, 1]. \<exists>e. element (heap2 n) = Some e \<and> e < length pdf2"
    by (simp add: heap2_def pdf2_def)
  have c: "inj_on (\<lambda>n. element (heap2 n)) (set [0::nat, 1])"
    by (simp add: heap2_def)
  from C1_addMotion_weights[OF a b c, of 2 "[0, 1]" "[0, 1]"] obtain h' pd' where r:
    "addMotion 2 [0, 1] (heap2, [0, 1], pdf2, [0, 1]) = Inr (h', [0, 1] @ [2], pd', [0, 1] @ [2])"
    "\<forall>n\<in>set [0::nat, 1]. \<forall>e. element (heap2 n) = Some e \<longrightarrow>
           pdf_getWeight pd' e = pdf_getWeight pdf2 e / (pdf_getWeight pdf2 e + 1)
           \<and> (0 < pdf_getWeight pdf2 e \<longrightarrow> pdf_getWeight pd' e < pdf_getWeight pdf2 e)"
    "pdf_getWeight pd' (length pdf2) = 1 / (real (length [0::nat, 1]) + 1)"
    by blast
  from r(2) have "pdf_getWeight pd' 0 = 1 / 2" "pdf_getWeight pd' 1 = 1 / 3"
    "pdf_getWeight pd' 0 < pdf_getWeight pdf2 0"
    by (simp_all add: heap2_def pdf2_def pdf_getWeight_def)
  moreover have "length pdf2 = 2" by (simp add: pdf2_def)
  with r(3) have "pdf_getWeight pd' 2 = 1 / 3" by simp
  ultimately show ?thesis using r(1) by auto
qed

section \<open>Density rejection\<close>

lemma reject_iff: "reject k u \<longleftrightarrow> k \<noteq> 0 \<and> u < 1 - 1 / real k"
  by (simp add: reject_def Let_def)

lemma reject_mono: "k \<le> k' \<Longrightarrow> reject k u \<Longrightarrow> reject k' u"
proof -
  assume le: "k \<le> k'" and r: "reject k u"
  from r have k: "k \<noteq> 0" "u < 1 - 1 / real k" by (simp_all add: reject_iff)
  from k(1) le have "1 / real k' \<le> 1 / real k" by (simp add: frac_le)
  with k le show "reject k' u" by (simp add: reject_iff)
qed

text \<open>
  C2. In an iteration whose candidate x was sampled, with k the number of members of the
  selected side's index within the neighborhood radius of x: the iteration is left at the
  rejection exactly when k is not 0 and the draw is below 1 - 1/k. For k = 0 the candidate
  is never rejected. The draws in [0,1) that reject are the interval from 0 to the
  rejection probability (0 for k = 0, else 1 - 1/k), a draw that rejects for k rejects for
  every larger count, and the rejection probability does not decrease with k.
\<close>

theorem C2_density_rejection:
  assumes "pdf_sample (if startTree l then startPdf (pl l) else goalPdf (pl l)) (uniform01_seed t)
             = Some existing"
    and "sampleNear t (sheap (pl l) (state (mheap (pl l) existing))) (maxDistance (pl l)) = Some x"
    and "k = length (filter (\<lambda>m. distance env (sheap (pl l) (state (mheap (pl l) m))) x
                                   \<le> nbrhoodRadius (pl l))
                       (if startTree l then nnStart (pl l) else nnGoal (pl l)))"
  shows "(expand env t l = Some (Inr (Continue, l))) = (k \<noteq> 0 \<and> uniform01_reject t < 1 - 1 / real k)
     \<and> (k = 0 \<longrightarrow> expand env t l \<noteq> Some (Inr (Continue, l)))
     \<and> {u. 0 \<le> u \<and> u < 1 \<and> reject k u} = {0 ..< (if k = 0 then 0 else 1 - 1 / real k)}
     \<and> (\<forall>k' u. k \<le> k' \<and> reject k u \<longrightarrow> reject k' u)
     \<and> (if k = 0 then 0 else 1 - 1 / real k) \<le> (if Suc k = 0 then 0 else 1 - 1 / real (Suc k))"
proof -
  have 1: "(expand env t l = Some (Inr (Continue, l))) = reject k (uniform01_reject t)"
    using assms
    by (auto simp: expand_def Let_def nearestR_def split: prod.splits sum.splits option.splits)
  have 3: "{u. 0 \<le> u \<and> u < 1 \<and> reject k u} = {0 ..< (if k = 0 then 0 else 1 - 1 / real k)}"
  proof (cases "k = 0")
    case True
    then show ?thesis by (simp add: reject_iff)
  next
    case False
    then have h: "1 - 1 / real k < 1" by simp
    show ?thesis using False by (auto simp: reject_iff intro: less_trans[OF _ h])
  qed
  have 5: "(if k = 0 then 0 else 1 - 1 / real k) \<le> (if Suc k = 0 then 0 else 1 - 1 / real (Suc k))"
    by (auto simp: field_simps)
  show ?thesis using 1 3 5 reject_mono by (auto simp: reject_iff)
qed

lemma seed1: "nextStarts env1 [0] planner0 = Inr planner1"
  by (simp add: env1_def planner0_def planner1_def setRange_def BiRealEST_def addRoot_def
      newMotion_def nearestR_def addMotion_to_def addMotion_def tree_of_def put_tree_def
      pdf_add_def heap0_def Let_def fun_upd_idem_iff)

theorem C2_density_rejection_witness:
  "expand env1 tick_go \<lparr>pl = planner2, startTree = True, solved = False\<rparr>
     = Some (Inr (Continue, \<lparr>pl = planner2, startTree = True, solved = False\<rparr>))
   \<and> reject 2 0 \<and> \<not> reject 0 0"
proof -
  let ?l = "\<lparr>pl = planner2, startTree = True, solved = False\<rparr>"
  have a: "pdf_sample (if startTree ?l then startPdf (pl ?l) else goalPdf (pl ?l))
             (uniform01_seed tick_go) = Some 0"
    by (simp add: planner2_def tick_go_def pdf_sample_def)
  have b: "sampleNear tick_go (sheap (pl ?l) (state (mheap (pl ?l) 0))) (maxDistance (pl ?l)) = Some 1"
    by (simp add: planner2_def tick_go_def heap0_def)
  have c: "2 = length (filter (\<lambda>m. distance env1 (sheap (pl ?l) (state (mheap (pl ?l) m))) 1
                                   \<le> nbrhoodRadius (pl ?l))
                       (if startTree ?l then nnStart (pl ?l) else nnGoal (pl ?l)))"
    by (simp add: planner2_def planner0_def setRange_def BiRealEST_def env1_def heap0_def)
  from C2_density_rejection[OF a b c] show ?thesis
    by (simp add: tick_go_def reject_def)
qed

section \<open>The checks at the entry of solve\<close>

lemma nextStarts_nil: "nextStarts env [] p = Inr p" by simp

text \<open>
  C6 (as amended). The checks at entry come in the order of the code and none of them runs
  the loop (the history is empty, whatever the iterations would read): a goal that is not
  sampleable gives UNRECOGNIZED_GOAL_TYPE, also when no initial state is valid; with a
  sampleable goal, a start tree that is empty after the seeding (it was empty at entry and
  no initial state passes validity) gives INVALID_START; with a sampleable goal and a
  start tree that is not empty, a goal that cannot sample gives INVALID_GOAL.
\<close>

theorem C6_entry_checks:
  "(\<not> goalSampleable env \<longrightarrow> solve env ts p = Some (Inr (UNRECOGNIZED_GOAL_TYPE, p, [])))
   \<and> (goalSampleable env \<and> startMotions p = [] \<and> (\<forall>s\<in>set (startStates env). \<not> isValid env s)
        \<longrightarrow> solve env ts p = Some (Inr (INVALID_START, p, [])))
   \<and> (goalSampleable env \<and> nextStarts env (filter (isValid env) (startStates env)) p = Inr p1
        \<and> startMotions p1 = []
        \<longrightarrow> solve env ts p = Some (Inr (INVALID_START, p1, [])))
   \<and> (goalSampleable env \<and> nextStarts env (filter (isValid env) (startStates env)) p = Inr p1
        \<and> startMotions p1 \<noteq> [] \<and> \<not> couldSample env
        \<longrightarrow> solve env ts p = Some (Inr (INVALID_GOAL, p1, [])))"
proof -
  have "(\<forall>s\<in>set (startStates env). \<not> isValid env s) \<Longrightarrow> filter (isValid env) (startStates env) = []"
    by (simp add: filter_empty_conv)
  then show ?thesis by (auto simp: solve_def)
qed

theorem C6_entry_checks_witness:
  "solve (env1\<lparr>goalSampleable := False\<rparr>) (\<lambda>i. tick_go) planner0
     = Some (Inr (UNRECOGNIZED_GOAL_TYPE, planner0, []))
   \<and> solve (env1\<lparr>isValid := (\<lambda>s. False)\<rparr>) (\<lambda>i. tick_go) planner0
     = Some (Inr (INVALID_START, planner0, []))
   \<and> solve (env1\<lparr>couldSample := False\<rparr>) (\<lambda>i. tick_go) planner0
     = Some (Inr (INVALID_GOAL, planner1, []))"
proof -
  have s: "nextStarts (env1\<lparr>couldSample := False\<rparr>)
             (filter (isValid (env1\<lparr>couldSample := False\<rparr>)) (startStates (env1\<lparr>couldSample := False\<rparr>))) planner0
           = Inr planner1"
    by (simp add: env1_def planner0_def planner1_def setRange_def BiRealEST_def addRoot_def
      newMotion_def nearestR_def addMotion_to_def addMotion_def tree_of_def put_tree_def
      pdf_add_def heap0_def Let_def fun_upd_idem_iff)
  have n: "startMotions planner1 \<noteq> []" by (simp add: planner1_def)
  have e: "startMotions planner0 = []" by (simp add: planner0_def setRange_def BiRealEST_def)
  from C6_entry_checks[of "env1\<lparr>goalSampleable := False\<rparr>" "\<lambda>i. tick_go" planner0]
  have 1: "solve (env1\<lparr>goalSampleable := False\<rparr>) (\<lambda>i. tick_go) planner0
     = Some (Inr (UNRECOGNIZED_GOAL_TYPE, planner0, []))" by simp
  from C6_entry_checks[of "env1\<lparr>isValid := (\<lambda>s. False)\<rparr>" "\<lambda>i. tick_go" planner0] e
  have 2: "solve (env1\<lparr>isValid := (\<lambda>s. False)\<rparr>) (\<lambda>i. tick_go) planner0
     = Some (Inr (INVALID_START, planner0, []))" by (simp add: env1_def)
  from C6_entry_checks[of "env1\<lparr>couldSample := False\<rparr>" "\<lambda>i. tick_go" planner0 planner1] s n
  have 3: "solve (env1\<lparr>couldSample := False\<rparr>) (\<lambda>i. tick_go) planner0
     = Some (Inr (INVALID_GOAL, planner1, []))" by (simp add: env1_def)
  from 1 2 3 show ?thesis by simp
qed

text \<open>
  C6 as the specification words it does not hold: with no valid initial state and a goal
  that is not sampleable, solve returns UNRECOGNIZED_GOAL_TYPE, not INVALID_START.
\<close>

theorem C6_unsampleable_goal_counterexample:
  "filter (isValid (env1\<lparr>goalSampleable := False, isValid := (\<lambda>s. False)\<rparr>))
          (startStates (env1\<lparr>goalSampleable := False, isValid := (\<lambda>s. False)\<rparr>)) = []
   \<and> startMotions planner0 = []
   \<and> solve (env1\<lparr>goalSampleable := False, isValid := (\<lambda>s. False)\<rparr>) (\<lambda>i. tick_go) planner0
      = Some (Inr (UNRECOGNIZED_GOAL_TYPE, planner0, []))
   \<and> UNRECOGNIZED_GOAL_TYPE \<noteq> INVALID_START"
  by (simp add: solve_def env1_def planner0_def setRange_def BiRealEST_def)

section \<open>Abandoned iterations\<close>

text \<open>
  C10 (as amended). An iteration that passes the goal replenishment and is then abandoned
  (sampleNear fails, the candidate is rejected by density, or the motion from the selected
  motion to the candidate is invalid) ends with the planner as the replenishment left it;
  when the replenishment inserted nothing (it was not due, or no goal sample came), that
  is the planner as it was before the iteration.
\<close>

theorem C10_abandoned_iteration_frame:
  assumes "replenish env t (pl l) = Inr (False, p1)"
    and "pdf_sample (if startTree l then startPdf p1 else goalPdf p1) (uniform01_seed t) = Some existing"
    and "sampleNear t (sheap p1 (state (mheap p1 existing))) (maxDistance p1) = None
         \<or> (\<exists>x. sampleNear t (sheap p1 (state (mheap p1 existing))) (maxDistance p1) = Some x
               \<and> (reject (length (nearestR env (sheap p1) (mheap p1)
                                     (if startTree l then nnStart p1 else nnGoal p1) x (nbrhoodRadius p1)))
                         (uniform01_reject t)
                    \<or> \<not> checkMotion env (sheap p1 (state (mheap p1 existing))) x))"
  shows "(\<exists>fl. iteration env t l = Some (Inr (fl, l\<lparr>pl := p1\<rparr>)))
     \<and> ((\<not> (goalMotions (pl l) = [] \<or> sampledGoalsCount t < length (goalMotions (pl l)) div 2)
          \<or> nextGoal t (goalMotions (pl l) = []) = None) \<longrightarrow> p1 = pl l)"
proof -
  have 1: "\<exists>fl. expand env t (l\<lparr>pl := p1\<rparr>) = Some (Inr (fl, l\<lparr>pl := p1\<rparr>))"
    using assms(2,3) by (auto simp: expand_def Let_def)
  have 2: "(\<not> (goalMotions (pl l) = [] \<or> sampledGoalsCount t < length (goalMotions (pl l)) div 2)
          \<or> nextGoal t (goalMotions (pl l) = []) = None) \<longrightarrow> p1 = pl l"
    using assms(1) by (auto simp: replenish_def split: if_splits)
  from 1 2 assms(1) show ?thesis by (simp add: iteration_def)
qed


theorem C10_abandoned_iteration_frame_witness:
  "(\<exists>fl. iteration env1 tick_fail \<lparr>pl = planner1g, startTree = True, solved = False\<rparr>
            = Some (Inr (fl, \<lparr>pl = planner1g, startTree = True, solved = False\<rparr>)))
   \<and> planner1g = pl \<lparr>pl = planner1g, startTree = True, solved = False\<rparr>"
proof -
  let ?l = "\<lparr>pl = planner1g, startTree = True, solved = False\<rparr>"
  have a: "replenish env1 tick_fail (pl ?l) = Inr (False, planner1g)"
    by (simp add: replenish_def planner1g_def tick_fail_def tick_go_def)
  have b: "pdf_sample (if startTree ?l then startPdf planner1g else goalPdf planner1g)
             (uniform01_seed tick_fail) = Some 0"
    by (simp add: planner1g_def planner1_def pdf_sample_def)
  have c: "sampleNear tick_fail (sheap planner1g (state (mheap planner1g 0))) (maxDistance planner1g)
             = None"
    by (simp add: tick_fail_def)
  have d: "\<not> (goalMotions (pl ?l) = [] \<or> sampledGoalsCount tick_fail < length (goalMotions (pl ?l)) div 2)"
    by (simp add: planner1g_def tick_fail_def tick_go_def)
  from C10_abandoned_iteration_frame[of env1 tick_fail ?l planner1g 0, OF a b] c d
  show ?thesis by simp
qed

text \<open>
  C10 as the specification words it does not hold: an iteration that starts with an empty
  goal tree inserts the goal sample it is given and is then abandoned because sampleNear
  fails; the goal side of the planner is not as it was before the iteration.
\<close>

theorem C10_replenished_then_abandoned_counterexample:
  "iteration env1 tick_fail \<lparr>pl = planner1, startTree = True, solved = False\<rparr>
     = Some (Inr (Continue, \<lparr>pl = planner1g, startTree = True, solved = False\<rparr>))
   \<and> goalMotions planner1 = [] \<and> goalMotions planner1g = [1]
   \<and> goalPdf planner1 = [] \<and> goalPdf planner1g = [(1, 1)]
   \<and> nnGoal planner1 = [] \<and> nnGoal planner1g = [1]"
  by (simp add: iteration_def replenish_def expand_def env1_def planner0_def planner1_def
      planner1g_def tick_fail_def tick_go_def setRange_def BiRealEST_def addRoot_def
      newMotion_def nearestR_def addMotion_to_def addMotion_def tree_of_def put_tree_def
      pdf_add_def pdf_sample_def heap0_def Let_def fun_upd_idem_iff)

section \<open>The solution path\<close>

lemma chain_of_hd: "chain_of h m c \<Longrightarrow> \<exists>r. c = m # r"
  by (induction h m c rule: chain_of.induct) auto

lemma chain_of_Cons:
  "parent (h m) = Some q \<Longrightarrow> chain_of h q c \<Longrightarrow> chain_of h m (m # c)"
  using chain_of_hd[of h q c] by auto

lemma mpath_chain:
  "parents_ok h mn \<Longrightarrow> m < mn \<Longrightarrow> \<exists>c. mpath h (Some m) acc = Some (acc @ c) \<and> chain_of h m c"
proof (induction m arbitrary: acc rule: less_induct)
  case (less m)
  show ?case
  proof (cases "parent (h m)")
    case None
    then have "mpath h (Some m) acc = Some (acc @ [m])"
      by (simp add: mpath.simps[of h "Some m"] mpath.simps[of h None])
    moreover have "chain_of h m [m]" using None by simp
    ultimately show ?thesis by blast
  next
    case (Some q)
    with less.prems have q: "q < m" by (auto simp: parents_ok_def)
    with less.prems have "q < mn" by simp
    from less.IH[OF q less.prems(1) this, of "acc @ [m]"] obtain c where
      c: "mpath h (Some q) (acc @ [m]) = Some ((acc @ [m]) @ c)" "chain_of h q c" by blast
    have "mpath h (Some m) acc = Some (acc @ (m # c))"
      using Some c(1) by (simp add: mpath.simps[of h "Some m"])
    moreover have "chain_of h m (m # c)" using Some c(2) by (rule chain_of_Cons)
    ultimately show ?thesis by blast
  qed
qed

lemma chain_of_last: "chain_of h m c \<Longrightarrow> parent (h (last c)) = None"
  by (induction h m c rule: chain_of.induct) auto

lemma chain_of_closed:
  "chain_of h m c \<Longrightarrow> m \<in> set ms \<Longrightarrow> \<forall>m\<in>set ms. \<forall>q. parent (h m) = Some q \<longrightarrow> q \<in> set ms
   \<Longrightarrow> set c \<subseteq> set ms"
  by (induction h m c rule: chain_of.induct) auto

lemma chain_of_unique: "chain_of h m c \<Longrightarrow> chain_of h m c' \<Longrightarrow> c = c'"
proof (induction h m c arbitrary: c' rule: chain_of.induct)
  case (1 h m)
  then show ?case by simp
next
  case (2 h m x)
  then show ?case by (induction h m c' rule: chain_of.induct) auto
next
  case (3 h m x y r)
  from "3.prems"(2) obtain r' where c': "c' = m # y # r'" "chain_of h y (y # r')"
    using "3.prems"(1) by (induction h m c' rule: chain_of.induct) auto
  from "3.IH"[OF _ c'(2)] "3.prems"(1) have "y # r = y # r'" by simp
  with c'(1) "3.prems"(1) show ?case by simp
qed

text \<open>
  C4. When the scan finds its pair in a planner of the kept shape (\<open>planner_ok\<close>, which
  solve preserves), with the new motion on one side and the neighbour on the other, the
  path it appends is the parent chain of the
  start-side motion reversed (root first, bridging motion last) followed by the parent
  chain of the goal-side motion (bridging motion first, root last). Its first state is
  the state of a motion of the start tree without parent, its last state the state of a
  motion of the goal tree without parent, and its length is the sum of the two chains'.
\<close>

theorem C4_solution_path:
  assumes ok: "planner_ok p"
    and ms: "(if b then motion else n) \<in> set (startMotions p)"
    and mg: "(if b then n else motion) \<in> set (goalMotions p)"
    and pv: "isStartGoalPairValid env (sheap p (root_state (mheap p motion)))
               (sheap p (root_state (mheap p n)))"
    and cm: "checkMotion env (sheap p (state (mheap p motion))) (sheap p (state (mheap p n)))"
  shows "\<exists>c1 c2 path.
      chain_of (mheap p) (if b then motion else n) c1
    \<and> chain_of (mheap p) (if b then n else motion) c2
    \<and> path = map (\<lambda>m. sheap p (state (mheap p m))) (rev c1) @ map (\<lambda>m. sheap p (state (mheap p m))) c2
    \<and> connect env b motion (n # ns) i p
        = Some (Suc i, True,
                p\<lparr>connectionPoint := (Some (state (mheap p motion)), Some (state (mheap p n))),
                  solutions := solutions p @ [path]\<rparr>)
    \<and> length path = length c1 + length c2
    \<and> hd path = sheap p (state (mheap p (last c1)))
    \<and> last c1 \<in> set (startMotions p) \<and> parent (mheap p (last c1)) = None
    \<and> last path = sheap p (state (mheap p (last c2)))
    \<and> last c2 \<in> set (goalMotions p) \<and> parent (mheap p (last c2)) = None"
proof -
  from ok have po: "parents_ok (mheap p) (mnext p)"
    and ls: "\<forall>m\<in>set (startMotions p). m < mnext p"
    and lg: "\<forall>m\<in>set (goalMotions p). m < mnext p"
    and cs: "\<forall>m\<in>set (startMotions p). \<forall>q. parent (mheap p m) = Some q
               \<longrightarrow> q \<in> set (startMotions p)"
    and cg: "\<forall>m\<in>set (goalMotions p). \<forall>q. parent (mheap p m) = Some q
               \<longrightarrow> q \<in> set (goalMotions p)"
    unfolding planner_ok_def tree_ok_def by blast+
  let ?sm = "if b then motion else n" and ?gm = "if b then n else motion"
  let ?st = "\<lambda>m. sheap p (state (mheap p m))"
  have sm: "?sm < mnext p" using ls ms by blast
  have gm: "?gm < mnext p" using lg mg by blast
  from mpath_chain[OF po sm, of "[]"] obtain c1 where
    c1: "mpath (mheap p) (Some ?sm) [] = Some c1" "chain_of (mheap p) ?sm c1" by auto
  from mpath_chain[OF po gm, of "[]"] obtain c2 where
    c2: "mpath (mheap p) (Some ?gm) [] = Some c2" "chain_of (mheap p) ?gm c2" by auto
  let ?path = "map ?st (rev c1) @ map ?st c2"
  have sp: "solutionPath p ?sm ?gm = Some ?path"
    using c1(1) c2(1) by (simp add: solutionPath_def)
  have run: "connect env b motion (n # ns) i p
        = Some (Suc i, True,
                p\<lparr>connectionPoint := (Some (state (mheap p motion)), Some (state (mheap p n))),
                  solutions := solutions p @ [?path]\<rparr>)"
    using pv cm sp by simp
  from chain_of_hd[OF c1(2)] have ne1: "c1 \<noteq> []" by auto
  from chain_of_hd[OF c2(2)] have ne2: "c2 \<noteq> []" by auto
  have hd: "hd ?path = ?st (last c1)" using ne1 by (simp add: hd_append hd_map hd_rev)
  have la: "last ?path = ?st (last c2)" using ne2 by (simp add: last_map)
  have in1: "last c1 \<in> set (startMotions p)"
    using chain_of_closed[OF c1(2) ms cs] ne1 by auto
  have in2: "last c2 \<in> set (goalMotions p)"
    using chain_of_closed[OF c2(2) mg cg] ne2 by auto
  have "length ?path = length c1 + length c2" by simp
  with c1(2) c2(2) run hd la in1 in2 chain_of_last[OF c1(2)] chain_of_last[OF c2(2)]
  show ?thesis by blast
qed

lemmas ex_defs = env1_def env2_def planner0_def planner1_def planner1g_def planner3_def
  tick_go_def tick_fail_def tick_stop_def tick_keep_def tick_nogoal_def setRange_def BiRealEST_def heap0_def

theorem C4_solution_path_witness:
  "connect env1 True 2 [1] 0 planner3
     = Some (Suc 0, True, planner3\<lparr>connectionPoint := (Some 2, Some 1), solutions := [[0, 1, 2]]\<rparr>)
   \<and> chain_of (mheap planner3) 2 [2, 0] \<and> chain_of (mheap planner3) 1 [1]"
proof -
  have a: "planner_ok planner3"
    by (simp add: planner_ok_def parents_ok_def tree_ok_def states_ok_def ex_defs
          less_Suc_eq numeral_3_eq_3 nth_Cons')
  have f: "(if True then (2::nat) else 1) \<in> set (startMotions planner3)" by (simp add: ex_defs)
  have g: "(if True then (1::nat) else 2) \<in> set (goalMotions planner3)" by (simp add: ex_defs)
  have h: "isStartGoalPairValid env1 (sheap planner3 (root_state (mheap planner3 2)))
             (sheap planner3 (root_state (mheap planner3 1)))" by (simp add: ex_defs)
  have k: "checkMotion env1 (sheap planner3 (state (mheap planner3 2)))
             (sheap planner3 (state (mheap planner3 1)))" by (simp add: ex_defs)
  have k1: "chain_of (mheap planner3) 2 [2, 0]" by (simp add: ex_defs)
  have k2: "chain_of (mheap planner3) 1 [1]" by (simp add: ex_defs)
  from C4_solution_path[OF a f g h k, of "[]" 0] obtain c1 c2 path where r:
    "chain_of (mheap planner3) 2 c1" "chain_of (mheap planner3) 1 c2"
    "path = map (\<lambda>m. sheap planner3 (state (mheap planner3 m))) (rev c1)
            @ map (\<lambda>m. sheap planner3 (state (mheap planner3 m))) c2"
    "connect env1 True 2 [1] 0 planner3
        = Some (Suc 0, True,
                planner3\<lparr>connectionPoint := (Some (state (mheap planner3 2)), Some (state (mheap planner3 1))),
                  solutions := solutions planner3 @ [path]\<rparr>)"
    by auto
  from chain_of_unique[OF r(1) k1] chain_of_unique[OF r(2) k2] r(3)
  have "path = [0, 1, 2]" by (simp add: ex_defs)
  with r(4) k1 k2 show ?thesis by (simp add: ex_defs)
qed

section \<open>The bridge attempt\<close>

lemma connect_skip:
  "\<forall>n\<in>set pre. \<not> (isStartGoalPairValid env (sheap p (root_state (mheap p motion)))
                                          (sheap p (root_state (mheap p n)))
                    \<and> checkMotion env (sheap p (state (mheap p motion))) (sheap p (state (mheap p n))))
   \<Longrightarrow> connect env b motion (pre @ rest) i p = connect env b motion rest (i + length pre) p"
  by (induction pre arbitrary: i) auto

lemma loop_solved: "solved l \<Longrightarrow> loop env ts i l tr = Some (Inr (l, tr))"
  by (simp add: loop.simps[of env ts i l tr])

text \<open>
  The scan as the code runs it. An iteration that inserts a new motion queries the other
  side's index within the maximum expansion distance of the new motion. When the answer is
  \<open>pre @ n # post\<close>, no member of \<open>pre\<close> passes the test of line 227 (the goal's
  \<^verbatim>\<open>isStartGoalPairValid\<close> given the new motion's root first and the neighbour's root
  second, and the motion to the neighbour valid) and \<open>n\<close> passes it, the scan leaves its
  loop after
  \<open>length pre + 1\<close> neighbours with the connection record (new motion's state, state of
  \<open>n\<close>), the path appended and \<^verbatim>\<open>solved\<close> set, whatever \<open>post\<close> holds, and the main loop
  returns after this iteration, whatever later iterations would read.
\<close>

lemma bridge_first_success:
  assumes "\<not> ptc (ts i)" and "\<not> solved l"
    and "replenish env (ts i) (pl l) = Inr (False, p0)"
    and "pdf_sample (if startTree l then startPdf p0 else goalPdf p0) (uniform01_seed (ts i))
           = Some existing"
    and "sampleNear (ts i) (sheap p0 (state (mheap p0 existing))) (maxDistance p0) = Some x"
    and "nearestR env (sheap p0) (mheap p0) (if startTree l then nnStart p0 else nnGoal p0) x
           (nbrhoodRadius p0) = neighbors"
    and "\<not> reject (length neighbors) (uniform01_reject (ts i))"
    and "checkMotion env (sheap p0 (state (mheap p0 existing))) x"
    and "newMotion x (Some existing) (Some (root_state (mheap p0 existing))) p0 = (motion, p1)"
    and "addMotion_to (startTree l) motion neighbors p1 = Inr p2"
    and "nearestR env (sheap p2) (mheap p2) (if startTree l then nnGoal p2 else nnStart p2)
           (sheap p2 (state (mheap p2 motion))) (maxDistance p2) = pre @ n # post"
    and "\<forall>n'\<in>set pre. \<not> (isStartGoalPairValid env (sheap p2 (root_state (mheap p2 motion)))
                                          (sheap p2 (root_state (mheap p2 n')))
                    \<and> checkMotion env (sheap p2 (state (mheap p2 motion))) (sheap p2 (state (mheap p2 n'))))"
    and "isStartGoalPairValid env (sheap p2 (root_state (mheap p2 motion)))
                                  (sheap p2 (root_state (mheap p2 n)))"
    and "checkMotion env (sheap p2 (state (mheap p2 motion))) (sheap p2 (state (mheap p2 n)))"
    and "solutionPath p2 (if startTree l then motion else n) (if startTree l then n else motion)
           = Some path"
  shows "connect env (startTree l) motion (pre @ n # post) 0 p2
           = Some (Suc (length pre), True,
                   p2\<lparr>connectionPoint := (Some (state (mheap p2 motion)), Some (state (mheap p2 n))),
                      solutions := solutions p2 @ [path]\<rparr>)
     \<and> loop env ts i l tr
           = Some (Inr (\<lparr>pl = p2\<lparr>connectionPoint := (Some (state (mheap p2 motion)),
                                                       Some (state (mheap p2 n))),
                                 solutions := solutions p2 @ [path]\<rparr>,
                         startTree = \<not> startTree l, solved = True\<rparr>,
                        tr @ [(startTree l, FallThrough)]))"
proof -
  let ?p3 = "p2\<lparr>connectionPoint := (Some (state (mheap p2 motion)), Some (state (mheap p2 n))),
                solutions := solutions p2 @ [path]\<rparr>"
  have c: "connect env (startTree l) motion (pre @ n # post) 0 p2 = Some (Suc (length pre), True, ?p3)"
    using connect_skip[OF assms(12), of "startTree l" "n # post" 0] assms(13,14,15) by simp
  have e: "expand env (ts i) (l\<lparr>pl := p0\<rparr>)
             = Some (Inr (FallThrough, l\<lparr>pl := ?p3, solved := True\<rparr>))"
    using assms(4-11) c by (simp add: expand_def Let_def)
  have it: "iteration env (ts i) l = Some (Inr (FallThrough, l\<lparr>pl := ?p3, solved := True\<rparr>))"
    using assms(3) e by (simp add: iteration_def)
  have "loop env ts i l tr
          = loop env ts (Suc i) (l\<lparr>pl := ?p3, solved := True, startTree := \<not> startTree l\<rparr>)
              (tr @ [(startTree l, FallThrough)])"
    using assms(1,2) it by (subst loop.simps) simp
  also have "\<dots> = Some (Inr (l\<lparr>pl := ?p3, solved := True, startTree := \<not> startTree l\<rparr>,
                           tr @ [(startTree l, FallThrough)]))"
    by (rule loop_solved) simp
  finally show ?thesis using c by simp
qed

lemma bridge_first_success_example:
  "loop env1 (\<lambda>i. tick_go) 0 \<lparr>pl = planner1g, startTree = True, solved = False\<rparr> []
     = Some (Inr (\<lparr>pl = planner3\<lparr>connectionPoint := (Some 2, Some 1), solutions := [[0, 1, 2]]\<rparr>,
                   startTree = False, solved = True\<rparr>,
                  [(True, FallThrough)]))"
proof -
  let ?l = "\<lparr>pl = planner1g, startTree = True, solved = False\<rparr>"
  let ?ts = "\<lambda>i::nat. tick_go"
  let ?p1 = "snd (newMotion 1 (Some 0) (Some 0) planner1g)"
  have a1: "\<not> ptc (?ts 0)" by (simp add: tick_go_def)
  have a2: "\<not> solved ?l" by simp
  have a3: "replenish env1 (?ts 0) (pl ?l) = Inr (False, planner1g)"
    by (simp add: replenish_def ex_defs)
  have a4: "pdf_sample (if startTree ?l then startPdf planner1g else goalPdf planner1g)
              (uniform01_seed (?ts 0)) = Some 0"
    by (simp add: pdf_sample_def ex_defs)
  have a5: "sampleNear (?ts 0) (sheap planner1g (state (mheap planner1g 0))) (maxDistance planner1g)
              = Some 1"
    by (simp add: ex_defs)
  have a6: "nearestR env1 (sheap planner1g) (mheap planner1g)
              (if startTree ?l then nnStart planner1g else nnGoal planner1g) 1
              (nbrhoodRadius planner1g) = [0]"
    by (simp add: nearestR_def ex_defs)
  have a7: "\<not> reject (length [0::nat]) (uniform01_reject (?ts 0))"
    by (simp add: reject_def ex_defs)
  have a8: "checkMotion env1 (sheap planner1g (state (mheap planner1g 0))) 1"
    by (simp add: ex_defs)
  have a9: "newMotion 1 (Some 0) (Some (root_state (mheap planner1g 0))) planner1g = (2, ?p1)"
    by (simp add: newMotion_def ex_defs)
  have a10: "addMotion_to (startTree ?l) 2 [0] ?p1 = Inr planner3"
    by (simp add: newMotion_def addMotion_to_def addMotion_def tree_of_def put_tree_def
        pdf_add_def pdf_update_def pdf_getWeight_def Let_def ex_defs)
  have a11: "nearestR env1 (sheap planner3) (mheap planner3)
               (if startTree ?l then nnGoal planner3 else nnStart planner3)
               (sheap planner3 (state (mheap planner3 2))) (maxDistance planner3) = [] @ 1 # []"
    by (simp add: nearestR_def ex_defs)
  have a12: "\<forall>n'\<in>set []. \<not> (isStartGoalPairValid env1 (sheap planner3 (root_state (mheap planner3 2)))
                                          (sheap planner3 (root_state (mheap planner3 n')))
                    \<and> checkMotion env1 (sheap planner3 (state (mheap planner3 2)))
                         (sheap planner3 (state (mheap planner3 n'))))"
    by simp
  have a13: "isStartGoalPairValid env1 (sheap planner3 (root_state (mheap planner3 2)))
               (sheap planner3 (root_state (mheap planner3 1)))"
    by (simp add: ex_defs)
  have a14: "checkMotion env1 (sheap planner3 (state (mheap planner3 2)))
               (sheap planner3 (state (mheap planner3 1)))"
    by (simp add: ex_defs)
  have a15: "solutionPath planner3 (if startTree ?l then 2 else 1) (if startTree ?l then 1 else 2)
               = Some [0, 1, 2]"
    by (simp add: solutionPath_def mpath.simps ex_defs)
  from bridge_first_success[OF a1 a2 a3 a4 a5 a6 a7 a8 a9 a10 a11 a12 a13 a14 a15, where tr = "[]"]
  show ?thesis by (simp add: ex_defs)
qed

lemmas run_defs = solve_def iteration_def replenish_def expand_def addRoot_def newMotion_def
  nearestR_def addMotion_to_def addMotion_def tree_of_def put_tree_def pdf_add_def
  pdf_update_def pdf_getWeight_def pdf_sample_def reject_def solutionPath_def Let_def
  fun_upd_idem_iff

section \<open>Which side an iteration works on\<close>

lemma follows_alternates:
  "follows b tr \<Longrightarrow>
     (case map fst (filter (\<lambda>e. snd e = FallThrough) tr) of [] \<Rightarrow> True | x # r \<Rightarrow> x = b)
     \<and> alternates (map fst (filter (\<lambda>e. snd e = FallThrough) tr))"
proof (induction tr arbitrary: b)
  case Nil
  then show ?case by simp
next
  case (Cons e tr)
  obtain s f where e: "e = (s, f)" by (cases e)
  show ?case
  proof (cases "f = FallThrough")
    case True
    with Cons.prems e have "follows (\<not> b) tr" "s = b" by simp_all
    from Cons.IH[OF this(1)] \<open>s = b\<close> True e show ?thesis
      by (cases "map fst (filter (\<lambda>e. snd e = FallThrough) tr)") auto
  next
    case False
    with Cons.prems e have "follows b tr" by simp
    from Cons.IH[OF this] False e show ?thesis by simp
  qed
qed

lemma follows_nth:
  "follows b tr \<Longrightarrow> Suc j < length tr \<Longrightarrow>
   fst (tr ! Suc j) = (if snd (tr ! j) = FallThrough then \<not> fst (tr ! j) else fst (tr ! j))"
proof (induction tr arbitrary: b j)
  case Nil
  then show ?case by simp
next
  case (Cons e tr)
  obtain s f where e: "e = (s, f)" by (cases e)
  from Cons.prems(2) obtain e' tr' where tr: "tr = e' # tr'" by (cases tr) auto
  obtain s' f' where e': "e' = (s', f')" by (cases e')
  show ?case
  proof (cases j)
    case 0
    then show ?thesis using Cons.prems e tr e' by auto
  next
    case (Suc k)
    from Cons.prems e have "follows (if f = FallThrough then \<not> b else b) tr" by simp
    from Cons.IH[OF this, of k] Cons.prems(2) Suc show ?thesis by simp
  qed
qed

lemma iteration_startTree:
  "iteration env t l = Some (Inr (fl, l1)) \<Longrightarrow> startTree l1 = startTree l"
  by (auto simp: iteration_def expand_def Let_def
           split: sum.splits prod.splits option.splits if_splits)

lemma loop_follows:
  assumes "loop env ts i l tr = Some y"
  shows "\<forall>l' tr'. y = Inr (l', tr') \<longrightarrow> (\<exists>new. tr' = tr @ new \<and> follows (startTree l) new)"
proof (rule loop.raw_induct[where P = "\<lambda>env ts i l tr y.
         \<forall>l' tr'. y = Inr (l', tr') \<longrightarrow> (\<exists>new. tr' = tr @ new \<and> follows (startTree l) new)",
       OF _ assms], goal_cases)
  case (1 loop' env ts i l tr y)
  show ?case
  proof (cases "ptc (ts i) \<or> solved l")
    case True
    with 1(2) show ?thesis by auto
  next
    case False
    show ?thesis
    proof (cases "iteration env (ts i) l")
      case None
      with 1(2) False show ?thesis by simp
    next
      case (Some r)
      show ?thesis
      proof (cases r)
        case (Inl f)
        with 1(2) False Some show ?thesis by auto
      next
        case (Inr q)
        obtain fl l1 where q: "q = (fl, l1)" by (cases q)
        have st: "startTree l1 = startTree l"
          using iteration_startTree Some Inr q by blast
        show ?thesis
        proof (cases fl)
          case Continue
          with 1(2) False Some Inr q
          have "loop' env ts (Suc i) l1 (tr @ [(startTree l, Continue)]) = Some y" by simp
          from 1(1)[OF this] st show ?thesis by auto
        next
          case FallThrough
          with 1(2) False Some Inr q
          have "loop' env ts (Suc i) (l1\<lparr>startTree := \<not> startTree l1\<rparr>)
                  (tr @ [(startTree l, FallThrough)]) = Some y" by simp
          from 1(1)[OF this] st show ?thesis by auto
        next
          case Break
          with 1(2) False Some Inr q show ?thesis by auto
        qed
      qed
    qed
  qed
qed

text \<open>
  C5 (as amended). In every run of solve that returns, the first iteration works on the
  start side, an iteration works on the other side than the one before it exactly when
  that one reached the flip at the end of the body, and on the same side when that one
  was abandoned at a \<^verbatim>\<open>continue\<close>. So the sides of the iterations that reach the flip
  alternate strictly, beginning with the start side.
\<close>

theorem C5_side_changes_at_flip:
  assumes "solve env ts p = Some (Inr (st, p', tr))"
  shows "follows True tr
     \<and> (\<forall>j. Suc j < length tr \<longrightarrow>
           fst (tr ! Suc j) = (if snd (tr ! j) = FallThrough then \<not> fst (tr ! j) else fst (tr ! j)))
     \<and> alternates (map fst (filter (\<lambda>e. snd e = FallThrough) tr))
     \<and> (case map fst (filter (\<lambda>e. snd e = FallThrough) tr) of [] \<Rightarrow> True | x # r \<Rightarrow> x = True)"
proof -
  have f: "follows True tr"
  proof (cases "goalSampleable env")
    case False
    with assms show ?thesis by (simp add: solve_def)
  next
    case True
    with assms obtain p1 where p1: "nextStarts env (filter (isValid env) (startStates env)) p = Inr p1"
      by (auto simp: solve_def split: sum.splits)
    show ?thesis
    proof (cases "startMotions p1 = [] \<or> \<not> couldSample env")
      case True
      with assms \<open>goalSampleable env\<close> p1 show ?thesis by (auto simp: solve_def split: if_splits)
    next
      case False
      with assms \<open>goalSampleable env\<close> p1 obtain l' where
        "loop env ts 0 \<lparr>pl = p1, startTree = True, solved = False\<rparr> [] = Some (Inr (l', tr))"
        by (auto simp: solve_def split: option.splits sum.splits)
      from loop_follows[OF this] show ?thesis by simp
    qed
  qed
  from f follows_nth[OF f] follows_alternates[OF f] show ?thesis by blast
qed

theorem C5_side_changes_at_flip_witness:
  "follows True [(True, Continue), (True, FallThrough)]
   \<and> map_option (map_sum id (snd \<circ> snd)) (solve env1 (\<lambda>i. if i = 0 then tick_fail else tick_go) planner0)
       = Some (Inr [(True, Continue), (True, FallThrough)])"
proof -
  have "\<exists>st p'. solve env1 (\<lambda>i. if i = 0 then tick_fail else tick_go) planner0
                  = Some (Inr (st, p', [(True, Continue), (True, FallThrough)]))"
    by (simp add: run_defs loop.simps mpath.simps ex_defs)
  then obtain st p' where r: "solve env1 (\<lambda>i. if i = 0 then tick_fail else tick_go) planner0
                  = Some (Inr (st, p', [(True, Continue), (True, FallThrough)]))" by blast
  from C5_side_changes_at_flip[OF r] r show ?thesis by simp
qed

text \<open>
  C5 as the specification words it does not hold. In this run the second and the third
  iteration both work on the goal side (the second is abandoned because sampleNear fails),
  and the two motions inserted, by the first and the fourth iteration, both go to the
  start tree.
\<close>

theorem C5_same_side_twice_counterexample:
  "map_option (map_sum id (\<lambda>r. (fst r, startMotions (fst (snd r)), goalMotions (fst (snd r)), snd (snd r))))
     (solve env2 (\<lambda>i. if i = 0 then tick_go else if i = 1 then tick_fail else if i = 2 then tick_go
                       else if i = 3 then tick_keep else tick_stop) planner0)
   = Some (Inr (TIMEOUT, [0, 2, 3], [1],
                [(True, FallThrough), (False, Continue), (False, FallThrough), (True, FallThrough)]))"
  by (simp add: run_defs loop.simps mpath.simps ex_defs)

section \<open>The pairing test on the goal side\<close>

lemmas more_defs = env3_def tick_back_def planner3g_def planner4_def

text \<open>
  C3. Line 227 gives \<^verbatim>\<open>isStartGoalPairValid\<close> the new motion's root first and the
  neighbour's root second on both sides, while lines 232-233 do tell the start-side
  motion from the goal-side one. An iteration on the goal side therefore asks the goal
  about (goal root, start root). Here the goal accepts exactly the start root 0 paired
  with the goal root 2. The iteration on the goal side inserts the motion 2 below the goal
  root; its only neighbour in the start tree is the start root, the pairing of the two
  roots (start root, goal root) is accepted and the motion between the two states is
  valid, and yet the scan passes the neighbour by: nothing is recorded and
  \<^verbatim>\<open>solved\<close> stays false. The iteration on the start side bridges the same two roots.
\<close>

theorem C3_goal_side_pairing_swapped:
  "iteration env3 tick_back \<lparr>pl = planner1g, startTree = False, solved = False\<rparr>
     = Some (Inr (FallThrough, \<lparr>pl = planner3g, startTree = False, solved = False\<rparr>))
   \<and> nearestR env3 (sheap planner3g) (mheap planner3g) (nnStart planner3g)
        (sheap planner3g (state (mheap planner3g 2))) (maxDistance planner3g) = [0]
   \<and> parent (mheap planner3g 0) = None \<and> sheap planner3g (state (mheap planner3g 0)) = 0
   \<and> parent (mheap planner3g 1) = None \<and> sheap planner3g (state (mheap planner3g 1)) = 2
   \<and> startMotions planner3g = [0] \<and> goalMotions planner3g = [1, 2]
   \<and> sheap planner3g (root_state (mheap planner3g 0)) = 0
   \<and> sheap planner3g (root_state (mheap planner3g 2)) = 2
   \<and> isStartGoalPairValid env3 (sheap planner3g (root_state (mheap planner3g 0)))
                                 (sheap planner3g (root_state (mheap planner3g 2)))
   \<and> checkMotion env3 (sheap planner3g (state (mheap planner3g 2)))
                       (sheap planner3g (state (mheap planner3g 0)))
   \<and> connect env3 False 2 [0] 0 planner3g = Some (Suc 0, False, planner3g)
   \<and> connectionPoint planner3g = (None, None) \<and> solutions planner3g = []
   \<and> iteration env3 tick_go \<lparr>pl = planner1g, startTree = True, solved = False\<rparr>
     = Some (Inr (FallThrough, \<lparr>pl = planner4, startTree = True, solved = True\<rparr>))
   \<and> connectionPoint planner4 = (Some 2, Some 1) \<and> solutions planner4 = [[0, 1, 2]]"
  by (simp add: run_defs mpath.simps more_defs ex_defs)

section \<open>The shape of the planner is kept\<close>

lemma pdf_walk_in: "pd \<noteq> [] \<Longrightarrow> \<exists>d. pdf_walk pd t = Some d \<and> d \<in> fst ` set pd"
  by (induction pd t rule: pdf_walk.induct) auto

lemma pdf_sample_in: "pd \<noteq> [] \<Longrightarrow> \<exists>d. pdf_sample pd r = Some d \<and> d \<in> set (map fst pd)"
  using pdf_walk_in[of pd] by (simp add: pdf_sample_def)

lemma tree_ok_length: "tree_ok h mn ms pd nn \<Longrightarrow> length pd = length ms"
  by (auto simp: tree_ok_def dest: arg_cong[where f = length])

lemma tree_ok_element:
  assumes "tree_ok h mn ms pd nn" and "n \<in> set ms"
  shows "\<exists>i<length ms. ms ! i = n \<and> element (h n) = Some i"
proof -
  from assms(2) obtain i where "i < length ms" "ms ! i = n" by (auto simp: in_set_conv_nth)
  with assms(1) show ?thesis by (auto simp: tree_ok_def)
qed

lemma tree_ok_handles:
  assumes ok: "tree_ok h mn ms pd nn" and nb: "set nb \<subseteq> set ms"
  shows "\<forall>n\<in>set nb. \<exists>e. element (h n) = Some e \<and> e < length pd"
    and "inj_on (\<lambda>n. element (h n)) (set nb)"
proof -
  show "\<forall>n\<in>set nb. \<exists>e. element (h n) = Some e \<and> e < length pd"
  proof
    fix n assume "n \<in> set nb"
    with nb have "n \<in> set ms" by blast
    from tree_ok_element[OF ok this] tree_ok_length[OF ok]
    show "\<exists>e. element (h n) = Some e \<and> e < length pd" by auto
  qed
  show "inj_on (\<lambda>n. element (h n)) (set nb)"
  proof (rule inj_onI)
    fix a b assume a: "a \<in> set nb" and b: "b \<in> set nb" and eq: "element (h a) = element (h b)"
    from a b nb have "a \<in> set ms" "b \<in> set ms" by blast+
    from tree_ok_element[OF ok this(1)] tree_ok_element[OF ok this(2)] eq
    show "a = b" by auto
  qed
qed

lemma tree_ok_frame:
  "tree_ok h mn ms pd nn \<Longrightarrow> \<forall>m\<in>set ms. h' m = h m \<Longrightarrow> mn \<le> mn' \<Longrightarrow> tree_ok h' mn' ms pd nn"
  by (fastforce simp: tree_ok_def)

lemma addMotion_preserves:
  assumes ok: "tree_ok h mn ms pd nn" and nb: "set nb \<subseteq> set ms" "distinct nb"
    and fresh: "motion \<notin> set ms" and lt: "motion < mn'" "mn \<le> mn'"
    and par: "\<forall>q. parent (h motion) = Some q \<longrightarrow> q \<in> set ms"
  shows "\<exists>pd'. addMotion motion nb (h, ms, pd, nn)
                 = Inr (h(motion := (h motion)\<lparr>element := Some (length ms)\<rparr>),
                        ms @ [motion], pd', nn @ [motion])
          \<and> tree_ok (h(motion := (h motion)\<lparr>element := Some (length ms)\<rparr>)) mn'
                (ms @ [motion]) pd' (nn @ [motion])"
proof -
  let ?h' = "h(motion := (h motion)\<lparr>element := Some (length ms)\<rparr>)"
  from update_neighbors_ok[OF nb(2) tree_ok_handles[OF ok nb(1)]] obtain pd1 where pd1:
    "update_neighbors h pd nb = Inr pd1" "length pd1 = length pd" "map fst pd1 = map fst pd"
    by blast
  let ?pd' = "pd1 @ [(motion, 1 / (real (length nb) + 1))]"
  have len: "length pd = length ms" by (rule tree_ok_length[OF ok])
  have run: "addMotion motion nb (h, ms, pd, nn) = Inr (?h', ms @ [motion], ?pd', nn @ [motion])"
    using pd1(1,2) len by (simp add: addMotion_def pdf_add_def)
  have m: "map fst pd = ms" "nn = ms" "distinct ms" "\<forall>m\<in>set ms. m < mn"
    "\<forall>i<length ms. element (h (ms ! i)) = Some i"
    "\<forall>m\<in>set ms. \<forall>q. parent (h m) = Some q \<longrightarrow> q \<in> set ms"
    using ok by (simp_all add: tree_ok_def)
  have e: "\<forall>i<length (ms @ [motion]). element (?h' ((ms @ [motion]) ! i)) = Some i"
  proof (intro allI impI)
    fix i assume i: "i < length (ms @ [motion])"
    show "element (?h' ((ms @ [motion]) ! i)) = Some i"
    proof (cases "i < length ms")
      case True
      then have "ms ! i \<in> set ms" by simp
      with fresh have "ms ! i \<noteq> motion" by auto
      with True m(5) show ?thesis by (simp add: nth_append)
    next
      case False
      with i have "i = length ms" by simp
      then show ?thesis by simp
    qed
  qed
  have p: "\<forall>m\<in>set (ms @ [motion]). \<forall>q. parent (?h' m) = Some q \<longrightarrow> q \<in> set (ms @ [motion])"
    using m(6) par by auto
  have "tree_ok ?h' mn' (ms @ [motion]) ?pd' (nn @ [motion])"
    unfolding tree_ok_def using pd1(3) m(1-4) fresh lt e p by auto
  with run show ?thesis by blast
qed

lemma nearestR_subset: "set (nearestR env sh h nn q r) \<subseteq> set nn"
  by (simp add: nearestR_def)

lemma nearestR_distinct: "distinct nn \<Longrightarrow> distinct (nearestR env sh h nn q r)"
  by (simp add: nearestR_def)

lemma parents_ok_insert:
  assumes "parents_ok h mn" and "\<forall>m<mn. h' m = h m" and "\<forall>q. parent (h' mn) = Some q \<longrightarrow> q < mn"
  shows "parents_ok h' (Suc mn)"
  unfolding parents_ok_def
proof (intro allI impI)
  fix m q assume m: "m < Suc mn" and q: "parent (h' m) = Some q"
  show "q < m"
  proof (cases "m = mn")
    case True
    with assms(3) q show ?thesis by simp
  next
    case False
    with m have "m < mn" by simp
    with assms(1,2) q show ?thesis by (simp add: parents_ok_def)
  qed
qed

lemma insert_ok:
  assumes ok: "planner_ok p"
    and nb: "set nb \<subseteq> set (if b then startMotions p else goalMotions p)" "distinct nb"
    and par: "\<forall>q. par = Some q \<longrightarrow> q \<in> set (if b then startMotions p else goalMotions p)"
  shows "\<exists>p2. addMotion_to b (mnext p) nb (snd (newMotion st par rt p)) = Inr p2
     \<and> fst (newMotion st par rt p) = mnext p
     \<and> planner_ok p2
     \<and> startMotions p2 = (if b then startMotions p @ [mnext p] else startMotions p)
     \<and> goalMotions p2 = (if b then goalMotions p else goalMotions p @ [mnext p])
     \<and> solutions p2 = solutions p \<and> connectionPoint p2 = connectionPoint p"
proof -
  let ?m = "mnext p"
  let ?new = "\<lparr>state = snext p, parent = par,
               root_state = (case rt of None \<Rightarrow> snext p | Some r \<Rightarrow> r), element = None\<rparr>"
  let ?h1 = "(mheap p)(?m := ?new)"
  let ?p1 = "snd (newMotion st par rt p)"
  let ?ms = "if b then startMotions p else goalMotions p"
  let ?pd = "if b then startPdf p else goalPdf p"
  let ?nn = "if b then nnStart p else nnGoal p"
  let ?os = "if b then goalMotions p else startMotions p"
  let ?opd = "if b then goalPdf p else startPdf p"
  let ?onn = "if b then nnGoal p else nnStart p"
  from ok have po: "parents_ok (mheap p) ?m"
    and ts: "tree_ok (mheap p) ?m ?ms ?pd ?nn" and to: "tree_ok (mheap p) ?m ?os ?opd ?onn"
    and so: "states_ok (mheap p) (snext p) (startMotions p) (goalMotions p)"
    by (auto simp: planner_ok_def)
  have lts: "\<forall>m\<in>set ?ms. m < ?m" using ts unfolding tree_ok_def by blast
  have lto: "\<forall>m\<in>set ?os. m < ?m" using to unfolding tree_ok_def by blast
  have ts1: "tree_ok ?h1 ?m ?ms ?pd ?nn"
    by (rule tree_ok_frame[OF ts]) (use lts in auto)
  have fresh: "?m \<notin> set ?ms" using lts by auto
  have par1: "\<forall>q. parent (?h1 ?m) = Some q \<longrightarrow> q \<in> set ?ms" using par by simp
  let ?h2 = "?h1(?m := (?h1 ?m)\<lparr>element := Some (length ?ms)\<rparr>)"
  have "\<exists>pd'. addMotion ?m nb (?h1, ?ms, ?pd, ?nn) = Inr (?h2, ?ms @ [?m], pd', ?nn @ [?m])
           \<and> tree_ok ?h2 (Suc ?m) (?ms @ [?m]) pd' (?nn @ [?m])"
    by (rule addMotion_preserves[OF ts1 nb fresh _ _ par1]) simp_all
  then obtain pd' where
    am: "addMotion ?m nb (?h1, ?ms, ?pd, ?nn) = Inr (?h2, ?ms @ [?m], pd', ?nn @ [?m])"
    and t2: "tree_ok ?h2 (Suc ?m) (?ms @ [?m]) pd' (?nn @ [?m])"
    by blast
  have to2: "tree_ok ?h2 (Suc ?m) ?os ?opd ?onn"
    by (rule tree_ok_frame[OF to]) (use lto in auto)
  have po2: "parents_ok ?h2 (Suc ?m)"
    by (rule parents_ok_insert[OF po]) (use par lts in auto)
  have tr: "tree_of b ?p1 = (?h1, ?ms, ?pd, ?nn)"
    by (simp add: tree_of_def newMotion_def Let_def)
  let ?p2 = "put_tree b (?h2, ?ms @ [?m], pd', ?nn @ [?m]) ?p1"
  have run: "addMotion_to b ?m nb ?p1 = Inr ?p2"
    using am tr by (simp add: addMotion_to_def)
  have f: "fst (newMotion st par rt p) = ?m" by (simp add: newMotion_def Let_def)
  have rest: "startMotions ?p2 = (if b then startMotions p @ [?m] else startMotions p)"
    "goalMotions ?p2 = (if b then goalMotions p else goalMotions p @ [?m])"
    "solutions ?p2 = solutions p" "connectionPoint ?p2 = connectionPoint p"
    by (simp_all add: put_tree_def newMotion_def Let_def)
  have fld: "mheap ?p2 = ?h2" "snext ?p2 = Suc (snext p)"
    by (simp_all add: put_tree_def newMotion_def Let_def)
  let ?old = "set (startMotions p) \<union> set (goalMotions p)"
  have old: "?old = set ?ms \<union> set ?os" by auto
  have mem: "set (startMotions ?p2) \<union> set (goalMotions ?p2) = insert ?m ?old"
    unfolding rest by (cases b) auto
  have nm: "?m \<notin> ?old" using lts lto old by auto
  have st2: "state (?h2 m) = (if m = ?m then snext p else state (mheap p m))" for m by simp
  from so have sb: "\<forall>m\<in>?old. state (mheap p m) < snext p"
    and si: "inj_on (\<lambda>m. state (mheap p m)) ?old"
    and sd: "set (startMotions p) \<inter> set (goalMotions p) = {}"
    by (simp_all add: states_ok_def)
  have b2: "\<forall>m\<in>insert ?m ?old. state (?h2 m) < Suc (snext p)"
  proof
    fix m assume "m \<in> insert ?m ?old"
    with sb show "state (?h2 m) < Suc (snext p)" unfolding st2 by (auto simp: less_Suc_eq)
  qed
  have i2: "inj_on (\<lambda>m. state (?h2 m)) (insert ?m ?old)"
  proof (rule inj_onI)
    fix x y assume x: "x \<in> insert ?m ?old" and y: "y \<in> insert ?m ?old"
      and e: "state (?h2 x) = state (?h2 y)"
    show "x = y"
    proof (cases "x = ?m")
      case True
      show ?thesis
      proof (rule ccontr)
        assume "x \<noteq> y"
        with True y have yo: "y \<in> ?old" "y \<noteq> ?m" by auto
        from sb yo(1) have "state (mheap p y) < snext p" by blast
        with e True yo(2) show False unfolding st2 by simp
      qed
    next
      case False
      with x have xo: "x \<in> ?old" by auto
      show ?thesis
      proof (cases "y = ?m")
        case True
        from sb xo have "state (mheap p x) < snext p" by blast
        with e False True show ?thesis unfolding st2 by simp
      next
        case False
        with y have "y \<in> ?old" by auto
        with si xo e \<open>x \<noteq> ?m\<close> False show ?thesis unfolding st2 by (auto simp: inj_on_def)
      qed
    qed
  qed
  have d2: "set (startMotions ?p2) \<inter> set (goalMotions ?p2) = {}"
    unfolding rest using sd nm by (cases b) auto
  have so2: "states_ok (mheap ?p2) (snext ?p2) (startMotions ?p2) (goalMotions ?p2)"
    unfolding states_ok_def mem fld using b2 i2 d2 by blast
  have "parents_ok (mheap ?p2) (mnext ?p2)
      \<and> tree_ok (mheap ?p2) (mnext ?p2) (startMotions ?p2) (startPdf ?p2) (nnStart ?p2)
      \<and> tree_ok (mheap ?p2) (mnext ?p2) (goalMotions ?p2) (goalPdf ?p2) (nnGoal ?p2)"
    using t2 to2 po2 by (cases b) (simp_all add: put_tree_def newMotion_def Let_def)
  with so2 have ok2: "planner_ok ?p2" unfolding planner_ok_def by blast
  from run f ok2 rest show ?thesis by blast
qed

lemma addRoot_ok:
  assumes ok: "planner_ok p"
  shows "\<exists>p2. addRoot env b st p = Inr p2 \<and> planner_ok p2
     \<and> startMotions p2 = (if b then startMotions p @ [mnext p] else startMotions p)
     \<and> goalMotions p2 = (if b then goalMotions p else goalMotions p @ [mnext p])
     \<and> solutions p2 = solutions p \<and> connectionPoint p2 = connectionPoint p"
proof -
  let ?p1 = "snd (newMotion st None None p)"
  let ?nb = "nearestR env (sheap ?p1) (mheap ?p1) (if b then nnStart ?p1 else nnGoal ?p1) st
               (nbrhoodRadius ?p1)"
  from ok have nn: "nnStart p = startMotions p" "nnGoal p = goalMotions p"
    "distinct (startMotions p)" "distinct (goalMotions p)"
    by (auto simp: planner_ok_def tree_ok_def)
  have nn1: "(if b then nnStart ?p1 else nnGoal ?p1) = (if b then startMotions p else goalMotions p)"
    using nn by (simp add: newMotion_def Let_def)
  have s: "set ?nb \<subseteq> set (if b then startMotions p else goalMotions p)"
    using nearestR_subset[of env "sheap ?p1" "mheap ?p1" "if b then nnStart ?p1 else nnGoal ?p1"]
    unfolding nn1 by blast
  have d: "distinct ?nb"
    by (rule nearestR_distinct) (use nn nn1 in auto)
  from insert_ok[OF ok s d, of None st None] obtain p2 where
    r: "addMotion_to b (mnext p) ?nb ?p1 = Inr p2" "planner_ok p2"
    "startMotions p2 = (if b then startMotions p @ [mnext p] else startMotions p)"
    "goalMotions p2 = (if b then goalMotions p else goalMotions p @ [mnext p])"
    "solutions p2 = solutions p" "connectionPoint p2 = connectionPoint p"
    by blast
  have "addRoot env b st p = addMotion_to b (mnext p) ?nb ?p1"
    by (simp add: addRoot_def Let_def newMotion_def)
  with r show ?thesis by simp
qed

lemma nextStarts_ok:
  "planner_ok p \<Longrightarrow>
   \<exists>p1. nextStarts env sts p = Inr p1 \<and> planner_ok p1
     \<and> length (startMotions p1) = length (startMotions p) + length sts
     \<and> goalMotions p1 = goalMotions p
     \<and> solutions p1 = solutions p \<and> connectionPoint p1 = connectionPoint p"
proof (induction sts arbitrary: p)
  case Nil
  then show ?case by simp
next
  case (Cons st sts)
  from addRoot_ok[OF Cons.prems, of env True st] obtain p2 where
    r: "addRoot env True st p = Inr p2" "planner_ok p2"
    "startMotions p2 = startMotions p @ [mnext p]" "goalMotions p2 = goalMotions p"
    "solutions p2 = solutions p" "connectionPoint p2 = connectionPoint p" by auto
  from Cons.IH[OF r(2)] r show ?case by auto
qed

lemma replenish_ok:
  assumes ok: "planner_ok p"
  shows "\<exists>p1. replenish env t p = Inr (goalMotions p1 = [], p1) \<and> planner_ok p1
     \<and> startMotions p1 = startMotions p
     \<and> solutions p1 = solutions p \<and> connectionPoint p1 = connectionPoint p"
proof (cases "(goalMotions p = [] \<or> sampledGoalsCount t < length (goalMotions p) div 2)
              \<and> nextGoal t (goalMotions p = []) \<noteq> None")
  case True
  then obtain st where st: "nextGoal t (goalMotions p = []) = Some st" by auto
  from addRoot_ok[OF ok, of env False st] obtain p2 where
    r: "addRoot env False st p = Inr p2" "planner_ok p2" "startMotions p2 = startMotions p"
    "goalMotions p2 = goalMotions p @ [mnext p]"
    "solutions p2 = solutions p" "connectionPoint p2 = connectionPoint p" by auto
  with True st have "replenish env t p = Inr (goalMotions p2 = [], p2)"
    by (simp add: replenish_def)
  with r show ?thesis by blast
next
  case False
  then have "replenish env t p = Inr (goalMotions p = [], p)"
    by (auto simp: replenish_def)
  with ok show ?thesis by blast
qed

lemma solutionPath_total:
  assumes "parents_ok (mheap p) (mnext p)" and "a < mnext p" and "b < mnext p"
  shows "\<exists>path. solutionPath p a b = Some path"
proof -
  from mpath_chain[OF assms(1,2), of "[]"] obtain c1 where "mpath (mheap p) (Some a) [] = Some c1"
    by auto
  moreover from mpath_chain[OF assms(1,3), of "[]"] obtain c2 where
    "mpath (mheap p) (Some b) [] = Some c2" by auto
  ultimately show ?thesis by (simp add: solutionPath_def)
qed

lemma connect_ok:
  assumes po: "parents_ok (mheap p) (mnext p)" and m: "motion < mnext p"
    and ns: "\<forall>n\<in>set ns. n < mnext p"
  shows "\<exists>j s p'. connect env b motion ns i p = Some (j, s, p')
           \<and> (\<exists>c sols. p' = p\<lparr>connectionPoint := c, solutions := sols\<rparr>) \<and> bridged p s p'"
  using ns
proof (induction ns arbitrary: i)
  case Nil
  have "p = p\<lparr>connectionPoint := connectionPoint p, solutions := solutions p\<rparr>" by simp
  then have "\<exists>c sols. p = p\<lparr>connectionPoint := c, solutions := sols\<rparr>" by blast
  moreover have "connect env b motion [] i p = Some (i, False, p)" by simp
  moreover have "bridged p False p" by (simp add: bridged_def)
  ultimately show ?case by blast
next
  case (Cons n ns)
  show ?case
  proof (cases "isStartGoalPairValid env (sheap p (root_state (mheap p motion)))
                                  (sheap p (root_state (mheap p n)))
         \<and> checkMotion env (sheap p (state (mheap p motion))) (sheap p (state (mheap p n)))")
    case True
    from Cons.prems have n: "n < mnext p" by simp
    have "(if b then motion else n) < mnext p" "(if b then n else motion) < mnext p"
      using m n by auto
    from solutionPath_total[OF po this] obtain path where
      "solutionPath p (if b then motion else n) (if b then n else motion) = Some path" by blast
    with True have "connect env b motion (n # ns) i p
        = Some (Suc i, True,
                p\<lparr>connectionPoint := (Some (state (mheap p motion)), Some (state (mheap p n))),
                  solutions := solutions p @ [path]\<rparr>)" by simp
    then show ?thesis by (auto simp: bridged_def)
  next
    case False
    then have "connect env b motion (n # ns) i p = connect env b motion ns (Suc i) p" by auto
    with Cons.IH[of "Suc i"] Cons.prems show ?thesis by simp
  qed
qed

lemma planner_ok_results:
  "planner_ok (p\<lparr>connectionPoint := c, solutions := sols\<rparr>) = planner_ok p"
  by (simp add: planner_ok_def)

lemma bridged_trans: "bridged p False p1 \<Longrightarrow> bridged p1 s p' \<Longrightarrow> bridged p s p'"
  by (auto simp: bridged_def)

lemma bridged_refl: "bridged p False p"
  by (simp add: bridged_def)

lemma expand_ok:
  assumes ok: "planner_ok (pl l)" and ne: "startMotions (pl l) \<noteq> []" "goalMotions (pl l) \<noteq> []"
    and ns: "\<not> solved l"
  shows "\<exists>fl l'. expand env t l = Some (Inr (fl, l')) \<and> fl \<noteq> Break \<and> planner_ok (pl l')
           \<and> startMotions (pl l') \<noteq> [] \<and> bridged (pl l) (solved l') (pl l')
           \<and> (solved l' \<longrightarrow> fl = FallThrough)"
proof -
  let ?p = "pl l"
  let ?b = "startTree l"
  let ?ms = "if ?b then startMotions ?p else goalMotions ?p"
  let ?pd = "if ?b then startPdf ?p else goalPdf ?p"
  let ?nn = "if ?b then nnStart ?p else nnGoal ?p"
  from ok have ts: "tree_ok (mheap ?p) (mnext ?p) ?ms ?pd ?nn" by (auto simp: planner_ok_def)
  then have f: "map fst ?pd = ?ms" "?nn = ?ms" "distinct ?ms" by (simp_all add: tree_ok_def)
  from ne have "?ms \<noteq> []" by simp
  with f(1) have "?pd \<noteq> []" by auto
  from pdf_sample_in[OF this, of "uniform01_seed t"] f(1) obtain existing where
    ex: "pdf_sample ?pd (uniform01_seed t) = Some existing" "existing \<in> set ?ms" by auto
  have same: "bridged ?p (solved l) ?p" using ns by (simp add: bridged_def)
  show ?thesis
  proof (cases "sampleNear t (sheap ?p (state (mheap ?p existing))) (maxDistance ?p)")
    case None
    with ex(1) have "expand env t l = Some (Inr (Continue, l))" by (simp add: expand_def)
    with ok ne ns same show ?thesis by auto
  next
    case (Some x)
    let ?nb = "nearestR env (sheap ?p) (mheap ?p) ?nn x (nbrhoodRadius ?p)"
    show ?thesis
    proof (cases "reject (length ?nb) (uniform01_reject t)")
      case True
      with ex(1) Some have "expand env t l = Some (Inr (Continue, l))"
        by (simp add: expand_def Let_def)
      with ok ne ns same show ?thesis by auto
    next
      case False
      note nrej = False
      show ?thesis
      proof (cases "checkMotion env (sheap ?p (state (mheap ?p existing))) x")
        case False
        with ex(1) Some nrej have "expand env t l = Some (Inr (FallThrough, l))"
          by (simp add: expand_def Let_def)
        with ok ne ns same show ?thesis by auto
      next
        case True
        let ?rt = "Some (root_state (mheap ?p existing))"
        let ?p1 = "snd (newMotion x (Some existing) ?rt ?p)"
        have s: "set ?nb \<subseteq> set ?ms" using nearestR_subset[of env _ _ ?nn] f(2) by auto
        have d: "distinct ?nb" by (rule nearestR_distinct) (use f in auto)
        have par: "\<forall>q. Some existing = Some q \<longrightarrow> q \<in> set ?ms" using ex(2) by simp
        from insert_ok[OF ok s d par, of x ?rt] obtain p2 where p2:
          "addMotion_to ?b (mnext ?p) ?nb ?p1 = Inr p2"
          "fst (newMotion x (Some existing) ?rt ?p) = mnext ?p"
          "planner_ok p2"
          "startMotions p2 = (if ?b then startMotions ?p @ [mnext ?p] else startMotions ?p)"
          "goalMotions p2 = (if ?b then goalMotions ?p else goalMotions ?p @ [mnext ?p])"
          "solutions p2 = solutions ?p" "connectionPoint p2 = connectionPoint ?p"
          by blast
        obtain p1 where nm: "newMotion x (Some existing) ?rt ?p = (mnext ?p, p1)"
          using p2(2) by (metis prod.collapse)
        then have "?p1 = p1" by simp
        with p2(1) have am: "addMotion_to ?b (mnext ?p) ?nb p1 = Inr p2" by simp
        let ?on = "if ?b then nnGoal p2 else nnStart p2"
        let ?others = "nearestR env (sheap p2) (mheap p2) ?on
                         (sheap p2 (state (mheap p2 (mnext ?p)))) (maxDistance p2)"
        from p2(3) have po2: "parents_ok (mheap p2) (mnext p2)"
          and t2s: "tree_ok (mheap p2) (mnext p2) (startMotions p2) (startPdf p2) (nnStart p2)"
          and t2g: "tree_ok (mheap p2) (mnext p2) (goalMotions p2) (goalPdf p2) (nnGoal p2)"
          by (auto simp: planner_ok_def)
        have lt: "\<forall>m\<in>set (startMotions p2) \<union> set (goalMotions p2). m < mnext p2"
          using t2s t2g unfolding tree_ok_def by blast
        have mo: "mnext ?p < mnext p2" using lt p2(4,5) by (cases ?b) auto
        have "set ?others \<subseteq> set ?on" by (rule nearestR_subset)
        moreover have "set ?on \<subseteq> set (startMotions p2) \<union> set (goalMotions p2)"
          using t2s t2g unfolding tree_ok_def by auto
        ultimately have ot: "\<forall>n\<in>set ?others. n < mnext p2" using lt by blast
        from connect_ok[OF po2 mo ot, of env ?b 0] obtain j s p3 where c:
          "connect env ?b (mnext ?p) ?others 0 p2 = Some (j, s, p3)"
          "\<exists>c sols. p3 = p2\<lparr>connectionPoint := c, solutions := sols\<rparr>" "bridged p2 s p3"
          by blast
        have run: "expand env t l = Some (Inr (FallThrough, l\<lparr>pl := p3, solved := s\<rparr>))"
          using ex(1) Some nrej True nm am c(1)
          by (cases "startTree l") (simp_all add: expand_def Let_def)
        from c(2) p2(3) have ok3: "planner_ok p3" by (auto simp: planner_ok_results)
        from p2(4) ne have "startMotions p2 \<noteq> []" by (cases "startTree l") simp_all
        with c(2) have ne3: "startMotions p3 \<noteq> []" by auto
        have "bridged ?p False p2" using p2(6,7) by (simp add: bridged_def)
        from bridged_trans[OF this c(3)] have "bridged ?p s p3" .
        with run ok3 ne3 show ?thesis by simp
      qed
    qed
  qed
qed

lemma iteration_ok:
  assumes ok: "planner_ok (pl l)" and ne: "startMotions (pl l) \<noteq> []" and ns: "\<not> solved l"
  shows "\<exists>fl l'. iteration env t l = Some (Inr (fl, l')) \<and> planner_ok (pl l')
           \<and> startMotions (pl l') \<noteq> [] \<and> bridged (pl l) (solved l') (pl l')
           \<and> (solved l' \<longrightarrow> fl = FallThrough)"
proof -
  from replenish_ok[OF ok, of env t] obtain p1 where r:
    "replenish env t (pl l) = Inr (goalMotions p1 = [], p1)" "planner_ok p1"
    "startMotions p1 = startMotions (pl l)"
    "solutions p1 = solutions (pl l)" "connectionPoint p1 = connectionPoint (pl l)" by blast
  have b1: "bridged (pl l) False p1" using r(4,5) by (simp add: bridged_def)
  show ?thesis
  proof (cases "goalMotions p1 = []")
    case True
    with r(1) have "iteration env t l = Some (Inr (Break, l\<lparr>pl := p1\<rparr>))"
      by (simp add: iteration_def)
    with r(2,3) ne ns b1 show ?thesis by simp
  next
    case False
    from expand_ok[of "l\<lparr>pl := p1\<rparr>" env t] r(2,3) ne ns False obtain fl l' where e:
      "expand env t (l\<lparr>pl := p1\<rparr>) = Some (Inr (fl, l'))" "planner_ok (pl l')"
      "startMotions (pl l') \<noteq> []" "bridged p1 (solved l') (pl l')" "solved l' \<longrightarrow> fl = FallThrough"
      by auto
    from r(1) False e(1) have "iteration env t l = Some (Inr (fl, l'))"
      by (simp add: iteration_def)
    with e bridged_trans[OF b1 e(4)] show ?thesis by blast
  qed
qed

section \<open>The status after the loop\<close>

lemma loop_result:
  assumes "loop env ts i l tr = Some y"
  shows "planner_ok (pl l) \<and> startMotions (pl l) \<noteq> [] \<longrightarrow>
         (\<exists>l' tr'. y = Inr (l', tr') \<and> planner_ok (pl l')
            \<and> (if solved l then l' = l else bridged (pl l) (solved l') (pl l')))"
proof (rule loop.raw_induct[where P = "\<lambda>env ts i l tr y.
         planner_ok (pl l) \<and> startMotions (pl l) \<noteq> [] \<longrightarrow>
         (\<exists>l' tr'. y = Inr (l', tr') \<and> planner_ok (pl l')
            \<and> (if solved l then l' = l else bridged (pl l) (solved l') (pl l')))",
       OF _ assms], goal_cases)
  case (1 loop' env ts i l tr y)
  show ?case
  proof (intro impI)
    assume inv: "planner_ok (pl l) \<and> startMotions (pl l) \<noteq> []"
    show "\<exists>l' tr'. y = Inr (l', tr') \<and> planner_ok (pl l')
            \<and> (if solved l then l' = l else bridged (pl l) (solved l') (pl l'))"
    proof (cases "solved l")
      case True
      with 1(2) inv show ?thesis by auto
    next
      case False
      note ns = False
      show ?thesis
      proof (cases "ptc (ts i)")
        case True
        with 1(2) ns inv show ?thesis by (auto simp: bridged_def)
      next
        case False
        from iteration_ok[of l env "ts i"] inv ns obtain fl l1 where it:
          "iteration env (ts i) l = Some (Inr (fl, l1))" "planner_ok (pl l1)"
          "startMotions (pl l1) \<noteq> []" "bridged (pl l) (solved l1) (pl l1)"
          "solved l1 \<longrightarrow> fl = FallThrough" by blast
        show ?thesis
        proof (cases fl)
          case Continue
          with it(5) have ns1: "\<not> solved l1" by auto
          from 1(2) ns False it(1) Continue
          have "loop' env ts (Suc i) l1 (tr @ [(startTree l, Continue)]) = Some y" by simp
          from 1(1)[OF this] it(2,3) ns1 obtain l' tr' where
            "y = Inr (l', tr')" "planner_ok (pl l')" "bridged (pl l1) (solved l') (pl l')" by auto
          with it(4) ns1 ns show ?thesis by (auto intro: bridged_trans)
        next
          case FallThrough
          let ?l2 = "l1\<lparr>startTree := \<not> startTree l1\<rparr>"
          from 1(2) ns False it(1) FallThrough
          have "loop' env ts (Suc i) ?l2 (tr @ [(startTree l, FallThrough)]) = Some y" by simp
          moreover have "planner_ok (pl ?l2) \<and> startMotions (pl ?l2) \<noteq> []"
            using it(2,3) by simp
          ultimately have "\<exists>l' tr'. y = Inr (l', tr') \<and> planner_ok (pl l')
              \<and> (if solved ?l2 then l' = ?l2 else bridged (pl ?l2) (solved l') (pl l'))"
            using 1(1) by blast
          then obtain l' tr' where r0:
            "y = Inr (l', tr')" "planner_ok (pl l')"
            "if solved ?l2 then l' = ?l2 else bridged (pl ?l2) (solved l') (pl l')" by blast
          from r0 have r: "y = Inr (l', tr')" "planner_ok (pl l')"
            "if solved l1 then l' = ?l2 else bridged (pl l1) (solved l') (pl l')"
            by (simp_all split: if_splits)
          show ?thesis
          proof (cases "solved l1")
            case True
            with r it(4) ns show ?thesis by auto
          next
            case False
            with r it(4) ns show ?thesis by (auto intro: bridged_trans)
          qed
        next
          case Break
          with it(5) have "\<not> solved l1" by auto
          with 1(2) ns False it(1,2,4) Break show ?thesis by auto
        qed
      qed
    qed
  qed
qed




lemma solve_keeps_shape:
  assumes "planner_ok p" and "solve env ts p = Some (Inr (status, p', tr))"
  shows "planner_ok p'"
proof (cases "goalSampleable env")
  case False
  with assms show ?thesis by (simp add: solve_def)
next
  case True
  let ?sts = "filter (isValid env) (startStates env)"
  from nextStarts_ok[OF assms(1), of env ?sts] obtain p1 where p1:
    "nextStarts env ?sts p = Inr p1" "planner_ok p1" by blast
  show ?thesis
  proof (cases "startMotions p1 = [] \<or> \<not> couldSample env")
    case True
    with assms(2) \<open>goalSampleable env\<close> p1 show ?thesis
      by (auto simp: solve_def split: if_splits)
  next
    case False
    with assms(2) \<open>goalSampleable env\<close> p1(1) obtain l' where
      l: "loop env ts 0 \<lparr>pl = p1, startTree = True, solved = False\<rparr> [] = Some (Inr (l', tr))"
      "p' = pl l'"
      by (auto simp: solve_def split: option.splits sum.splits)
    from loop_result[OF l(1)] p1(2) False l(2) show ?thesis by auto
  qed
qed

section \<open>The exported graph\<close>

lemma startStep_edges:
  "edges (startStep h m d) =
     edges d \<union> (case parent (h m) of None \<Rightarrow> {} | Some q \<Rightarrow> {(state (h q), state (h m))})"
  by (auto simp: startStep_def addStartVertex_def addEdge_vertex_def addEdge_index_def
        addVertex_def Let_def split: option.splits)

lemma goalStep_edges:
  "edges (goalStep h m d) =
     edges d \<union> (case parent (h m) of None \<Rightarrow> {} | Some q \<Rightarrow> {(state (h m), state (h q))})"
  by (auto simp: goalStep_def addGoalVertex_def addEdge_vertex_def addEdge_index_def
        addVertex_def Let_def split: option.splits)

lemma fold_startStep_edges:
  "edges (fold (startStep h) ms d) =
     edges d \<union> {(state (h q), state (h m)) | m q. m \<in> set ms \<and> parent (h m) = Some q}"
proof (induction ms arbitrary: d)
  case Nil
  then show ?case by simp
next
  case (Cons m ms)
  show ?case by (auto simp: Cons.IH startStep_edges split: option.splits)
qed

lemma fold_goalStep_edges:
  "edges (fold (goalStep h) ms d) =
     edges d \<union> {(state (h m), state (h q)) | m q. m \<in> set ms \<and> parent (h m) = Some q}"
proof (induction ms arbitrary: d)
  case Nil
  then show ?case by simp
next
  case (Cons m ms)
  show ?case by (auto simp: Cons.IH goalStep_edges split: option.splits)
qed

text \<open>The states a loop over the motions ms makes vertices: theirs and their parents'.\<close>

lemma startStep_tag:
  "vertexTag (startStep h m d) a =
     (case vertexTag d a of
        Some t \<Rightarrow> Some t
      | None \<Rightarrow> if a = state (h m) \<or> (\<exists>q. parent (h m) = Some q \<and> a = state (h q))
                then Some 1 else None)"
  by (auto simp: startStep_def addStartVertex_def addEdge_vertex_def addEdge_index_def
        addVertex_def Let_def split: option.splits)

lemma goalStep_tag:
  "vertexTag (goalStep h m d) a =
     (case vertexTag d a of
        Some t \<Rightarrow> Some t
      | None \<Rightarrow> if a = state (h m) \<or> (\<exists>q. parent (h m) = Some q \<and> a = state (h q))
                then Some 2 else None)"
  by (auto simp: goalStep_def addGoalVertex_def addEdge_vertex_def addEdge_index_def
        addVertex_def Let_def split: option.splits)

lemma fold_startStep_tag:
  "vertexTag (fold (startStep h) ms d) a =
     (case vertexTag d a of
        Some t \<Rightarrow> Some t
      | None \<Rightarrow> if \<exists>m\<in>set ms. a = state (h m) \<or> (\<exists>q. parent (h m) = Some q \<and> a = state (h q))
                then Some 1 else None)"
proof (induction ms arbitrary: d)
  case Nil
  then show ?case by (simp split: option.splits)
next
  case (Cons m ms)
  show ?case by (auto simp: Cons.IH startStep_tag split: option.splits)
qed

lemma fold_goalStep_tag:
  "vertexTag (fold (goalStep h) ms d) a =
     (case vertexTag d a of
        Some t \<Rightarrow> Some t
      | None \<Rightarrow> if \<exists>m\<in>set ms. a = state (h m) \<or> (\<exists>q. parent (h m) = Some q \<and> a = state (h q))
                then Some 2 else None)"
proof (induction ms arbitrary: d)
  case Nil
  then show ?case by (simp split: option.splits)
next
  case (Cons m ms)
  show ?case by (auto simp: Cons.IH goalStep_tag split: option.splits)
qed

lemma startStep_marks:
  "startVertices (startStep h m d) =
     startVertices d \<union> (if parent (h m) = None then {state (h m)} else {})"
  "goalVertices (startStep h m d) = goalVertices d"
  by (auto simp: startStep_def addStartVertex_def addEdge_vertex_def addEdge_index_def
        addVertex_def Let_def split: option.splits)

lemma goalStep_marks:
  "goalVertices (goalStep h m d) =
     goalVertices d \<union> (if parent (h m) = None then {state (h m)} else {})"
  "startVertices (goalStep h m d) = startVertices d"
  by (auto simp: goalStep_def addGoalVertex_def addEdge_vertex_def addEdge_index_def
        addVertex_def Let_def split: option.splits)

lemma fold_startStep_marks:
  "startVertices (fold (startStep h) ms d) =
     startVertices d \<union> {state (h m) | m. m \<in> set ms \<and> parent (h m) = None}"
  "goalVertices (fold (startStep h) ms d) = goalVertices d"
proof (induction ms arbitrary: d)
  case Nil
  { case 1 show ?case by simp }
  { case 2 show ?case by simp }
next
  case (Cons m ms)
  { case 1 show ?case by (auto simp: Cons.IH startStep_marks) }
  { case 2 show ?case by (simp add: Cons.IH startStep_marks) }
qed

lemma fold_goalStep_marks:
  "goalVertices (fold (goalStep h) ms d) =
     goalVertices d \<union> {state (h m) | m. m \<in> set ms \<and> parent (h m) = None}"
  "startVertices (fold (goalStep h) ms d) = startVertices d"
proof (induction ms arbitrary: d)
  case Nil
  { case 1 show ?case by simp }
  { case 2 show ?case by simp }
next
  case (Cons m ms)
  { case 1 show ?case by (auto simp: Cons.IH goalStep_marks) }
  { case 2 show ?case by (simp add: Cons.IH goalStep_marks) }
qed

lemma addEdge_index_edges:
  "edges (addEdge_index (vertexIndex d i) (vertexIndex d j) d) =
     edges d \<union> {(a, b). i = Some a \<and> j = Some b \<and> vertexTag d a \<noteq> None \<and> vertexTag d b \<noteq> None}"
  by (auto simp: addEdge_index_def vertexIndex_def split: option.splits)

lemma addEdge_index_rest:
  "vertexTag (addEdge_index i j d) = vertexTag d"
  "startVertices (addEdge_index i j d) = startVertices d"
  "goalVertices (addEdge_index i j d) = goalVertices d"
  by (auto simp: addEdge_index_def split: option.splits)

text \<open>
  C8. For a planner of the kept shape and an empty container: every start-tree motion's
  state is a vertex with tag 1, every goal-tree motion's state a vertex with tag 2, and
  there is no other vertex; the parentless motions are the start and goal vertices; the
  edges are (parent, child) for every start-tree motion with a parent, (child, parent) for
  every goal-tree motion with a parent, different motions giving different edges, and the
  pair of the connection record when both its halves are set. When the connection record
  is unset (the planner never solved) there are the tree edges and no other edge.
\<close>

theorem C8_planner_data:
  assumes ok: "planner_ok p"
  shows "(\<forall>m\<in>set (startMotions p). vertexTag (getPlannerData p emptyData) (state (mheap p m)) = Some 1)
     \<and> (\<forall>m\<in>set (goalMotions p). vertexTag (getPlannerData p emptyData) (state (mheap p m)) = Some 2)
     \<and> (\<forall>a. vertexTag (getPlannerData p emptyData) a \<noteq> None \<longrightarrow>
            a \<in> (\<lambda>m. state (mheap p m)) ` (set (startMotions p) \<union> set (goalMotions p)))
     \<and> startVertices (getPlannerData p emptyData)
         = {state (mheap p m) | m. m \<in> set (startMotions p) \<and> parent (mheap p m) = None}
     \<and> goalVertices (getPlannerData p emptyData)
         = {state (mheap p m) | m. m \<in> set (goalMotions p) \<and> parent (mheap p m) = None}
     \<and> edges (getPlannerData p emptyData)
         = {(state (mheap p q), state (mheap p m)) | m q.
              m \<in> set (startMotions p) \<and> parent (mheap p m) = Some q}
           \<union> {(state (mheap p m), state (mheap p q)) | m q.
              m \<in> set (goalMotions p) \<and> parent (mheap p m) = Some q}
           \<union> {(a, b). connectionPoint p = (Some a, Some b)
                \<and> a \<in> (\<lambda>m. state (mheap p m)) ` (set (startMotions p) \<union> set (goalMotions p))
                \<and> b \<in> (\<lambda>m. state (mheap p m)) ` (set (startMotions p) \<union> set (goalMotions p))}
     \<and> (\<forall>m\<in>set (startMotions p). \<forall>m'\<in>set (startMotions p). \<forall>q q'.
            parent (mheap p m) = Some q \<and> parent (mheap p m') = Some q'
            \<and> (state (mheap p q), state (mheap p m)) = (state (mheap p q'), state (mheap p m'))
            \<longrightarrow> m = m')
     \<and> (\<forall>m\<in>set (goalMotions p). \<forall>m'\<in>set (goalMotions p). \<forall>q q'.
            parent (mheap p m) = Some q \<and> parent (mheap p m') = Some q'
            \<and> (state (mheap p m), state (mheap p q)) = (state (mheap p m'), state (mheap p q'))
            \<longrightarrow> m = m')
     \<and> (fst (connectionPoint p) = None \<or> snd (connectionPoint p) = None \<longrightarrow>
          edges (getPlannerData p emptyData)
            = {(state (mheap p q), state (mheap p m)) | m q.
                 m \<in> set (startMotions p) \<and> parent (mheap p m) = Some q}
              \<union> {(state (mheap p m), state (mheap p q)) | m q.
                 m \<in> set (goalMotions p) \<and> parent (mheap p m) = Some q})"
proof -
  from ok have cs: "\<forall>m\<in>set (startMotions p). \<forall>q. parent (mheap p m) = Some q
                      \<longrightarrow> q \<in> set (startMotions p)"
    and cg: "\<forall>m\<in>set (goalMotions p). \<forall>q. parent (mheap p m) = Some q
                      \<longrightarrow> q \<in> set (goalMotions p)"
    and inj: "inj_on (\<lambda>m. state (mheap p m)) (set (startMotions p) \<union> set (goalMotions p))"
    and dis: "set (startMotions p) \<inter> set (goalMotions p) = {}"
    unfolding planner_ok_def tree_ok_def states_ok_def by blast+
  let ?h = "mheap p"
  let ?S = "\<lambda>m. state (?h m)"
  let ?d1 = "fold (startStep ?h) (startMotions p) emptyData"
  let ?d2 = "fold (goalStep ?h) (goalMotions p) ?d1"
  let ?d = "getPlannerData p emptyData"
  let ?V = "?S ` (set (startMotions p) \<union> set (goalMotions p))"
  have d: "?d = addEdge_index (vertexIndex ?d2 (fst (connectionPoint p)))
                  (vertexIndex ?d2 (snd (connectionPoint p))) ?d2"
    by (simp add: getPlannerData_def Let_def)
  have e0: "edges emptyData = {}" "startVertices emptyData = {}" "goalVertices emptyData = {}"
    "\<And>a. vertexTag emptyData a = None"
    by (simp_all add: emptyData_def)
  have vs: "(\<exists>m\<in>set (startMotions p). a = ?S m \<or> (\<exists>q. parent (?h m) = Some q \<and> a = ?S q))
              = (a \<in> ?S ` set (startMotions p))" for a
    using cs by blast
  have vg: "(\<exists>m\<in>set (goalMotions p). a = ?S m \<or> (\<exists>q. parent (?h m) = Some q \<and> a = ?S q))
              = (a \<in> ?S ` set (goalMotions p))" for a
    using cg by blast
  have t1: "vertexTag ?d1 a = (if a \<in> ?S ` set (startMotions p) then Some 1 else None)" for a
    by (simp add: fold_startStep_tag vs e0)
  have t2: "vertexTag ?d2 a = (if a \<in> ?S ` set (startMotions p) then Some 1
                               else if a \<in> ?S ` set (goalMotions p) then Some 2 else None)" for a
    by (simp add: fold_goalStep_tag vg t1)
  have td: "vertexTag ?d a = vertexTag ?d2 a" for a
    by (simp add: d addEdge_index_rest)
  have sep: "?S m \<notin> ?S ` set (startMotions p)" if "m \<in> set (goalMotions p)" for m
  proof
    assume "?S m \<in> ?S ` set (startMotions p)"
    then obtain m' where m': "m' \<in> set (startMotions p)" "?S m' = ?S m" by auto
    with inj that have "m' = m" by (auto simp: inj_on_def)
    with m'(1) that dis show False by auto
  qed
  have A: "\<forall>m\<in>set (startMotions p). vertexTag ?d (?S m) = Some 1"
    by (simp add: td t2)
  have B: "\<forall>m\<in>set (goalMotions p). vertexTag ?d (?S m) = Some 2"
    using sep by (simp add: td t2)
  have C: "\<forall>a. vertexTag ?d a \<noteq> None \<longrightarrow> a \<in> ?V"
    by (auto simp: td t2 split: if_splits)
  have D: "startVertices ?d = {?S m | m. m \<in> set (startMotions p) \<and> parent (?h m) = None}"
    by (simp add: d addEdge_index_rest fold_goalStep_marks fold_startStep_marks e0)
  have E: "goalVertices ?d = {?S m | m. m \<in> set (goalMotions p) \<and> parent (?h m) = None}"
    by (simp add: d addEdge_index_rest fold_goalStep_marks fold_startStep_marks e0)
  have v2: "(vertexTag ?d2 a \<noteq> None) = (a \<in> ?V)" for a
    by (auto simp: t2)
  have F: "edges ?d
         = {(?S q, ?S m) | m q. m \<in> set (startMotions p) \<and> parent (?h m) = Some q}
           \<union> {(?S m, ?S q) | m q. m \<in> set (goalMotions p) \<and> parent (?h m) = Some q}
           \<union> {(a, b). connectionPoint p = (Some a, Some b) \<and> a \<in> ?V \<and> b \<in> ?V}"
  proof -
    have "{(a, b). fst (connectionPoint p) = Some a \<and> snd (connectionPoint p) = Some b
                 \<and> vertexTag ?d2 a \<noteq> None \<and> vertexTag ?d2 b \<noteq> None}
          = {(a, b). connectionPoint p = (Some a, Some b) \<and> a \<in> ?V \<and> b \<in> ?V}"
      unfolding v2 by (cases "connectionPoint p") auto
    then show ?thesis
      by (simp add: d addEdge_index_edges fold_goalStep_edges fold_startStep_edges e0)
  qed
  have G: "\<forall>m\<in>set (startMotions p). \<forall>m'\<in>set (startMotions p). \<forall>q q'.
            parent (?h m) = Some q \<and> parent (?h m') = Some q'
            \<and> (?S q, ?S m) = (?S q', ?S m') \<longrightarrow> m = m'"
    using inj by (auto simp: inj_on_def)
  have H: "\<forall>m\<in>set (goalMotions p). \<forall>m'\<in>set (goalMotions p). \<forall>q q'.
            parent (?h m) = Some q \<and> parent (?h m') = Some q'
            \<and> (?S m, ?S q) = (?S m', ?S q') \<longrightarrow> m = m'"
    using inj by (auto simp: inj_on_def)
  have I: "fst (connectionPoint p) = None \<or> snd (connectionPoint p) = None \<longrightarrow>
          edges ?d
            = {(?S q, ?S m) | m q. m \<in> set (startMotions p) \<and> parent (?h m) = Some q}
              \<union> {(?S m, ?S q) | m q. m \<in> set (goalMotions p) \<and> parent (?h m) = Some q}"
  proof
    assume "fst (connectionPoint p) = None \<or> snd (connectionPoint p) = None"
    then have "{(a, b). connectionPoint p = (Some a, Some b) \<and> a \<in> ?V \<and> b \<in> ?V} = {}"
      by (cases "connectionPoint p") auto
    with F show "edges ?d
            = {(?S q, ?S m) | m q. m \<in> set (startMotions p) \<and> parent (?h m) = Some q}
              \<union> {(?S m, ?S q) | m q. m \<in> set (goalMotions p) \<and> parent (?h m) = Some q}"
      by simp
  qed
  from A B C D E F G H I show ?thesis by blast
qed

theorem C8_planner_data_witness:
  "vertexTag (getPlannerData planner4 emptyData) 0 = Some 1
   \<and> vertexTag (getPlannerData planner4 emptyData) 2 = Some 1
   \<and> vertexTag (getPlannerData planner4 emptyData) 1 = Some 2
   \<and> edges (getPlannerData planner4 emptyData) = {(0, 2), (2, 1)}
   \<and> edges (getPlannerData planner3 emptyData) = {(0, 2)}"
proof -
  have ok3: "planner_ok planner3"
    by (simp add: planner_ok_def parents_ok_def tree_ok_def states_ok_def ex_defs
          less_Suc_eq numeral_3_eq_3 nth_Cons')
  then have ok4: "planner_ok planner4" by (simp add: planner4_def planner_ok_results)
  have f3: "startMotions planner3 = [0, 2]" "goalMotions planner3 = [1]"
    "state (mheap planner3 0) = 0" "state (mheap planner3 1) = 1" "state (mheap planner3 2) = 2"
    "parent (mheap planner3 0) = None" "parent (mheap planner3 1) = None"
    "parent (mheap planner3 2) = Some 0" "connectionPoint planner3 = (None, None)"
    by (simp_all add: ex_defs)
  have f4: "startMotions planner4 = [0, 2]" "goalMotions planner4 = [1]"
    "mheap planner4 = mheap planner3" "connectionPoint planner4 = (Some 2, Some 1)"
    by (simp_all add: planner4_def f3)
  have A: "{(state (mheap planner3 q), state (mheap planner3 m)) | m q.
              m \<in> set [0, 2] \<and> parent (mheap planner3 m) = Some q} = {(0, 2)}"
    (is "?L = _")
  proof
    show "?L \<subseteq> {(0, 2)}" using f3(3-8) by auto
    have "(state (mheap planner3 0), state (mheap planner3 2)) \<in> ?L"
      using f3(8) by (intro CollectI exI[of _ 2] exI[of _ 0]) simp
    then show "{(0, 2)} \<subseteq> ?L" using f3(3,5) by simp
  qed
  have B: "{(state (mheap planner3 m), state (mheap planner3 q)) | m q.
              m \<in> set [1] \<and> parent (mheap planner3 m) = Some q} = {}"
    using f3(7) by auto
  have V: "(\<lambda>m. state (mheap planner3 m)) ` (set [0, 2] \<union> set [1]) = {0, 1, 2}"
    using f3(3-5) by auto
  have C: "{(a, b). (Some 2, Some 1) = (Some a, Some b) \<and> a \<in> {0::nat, 1, 2} \<and> b \<in> {0::nat, 1, 2}}
             = {(2, 1)}"
    by auto
  from C8_planner_data[OF ok4]
  have v: "vertexTag (getPlannerData planner4 emptyData) 0 = Some 1"
    "vertexTag (getPlannerData planner4 emptyData) 2 = Some 1"
    "vertexTag (getPlannerData planner4 emptyData) 1 = Some 2"
    and e4: "edges (getPlannerData planner4 emptyData) = {(0, 2)} \<union> {} \<union> {(2, 1)}"
    unfolding f4 A B V C using f3(3-5) by (metis list.set_intros(1,2))+
  from C8_planner_data[OF ok3]
  have e3: "edges (getPlannerData planner3 emptyData) = {(0, 2)} \<union> {}"
    unfolding f3(1,2) A B using f3(9) by simp
  from v e4 e3 show ?thesis by auto
qed

end
